theory Spec2Isabelle
  imports Main "HOL-Library.Word"
begin

section \<open>Data model of alarmclock.cpp\<close>

text \<open>
  Modelled from the spec: the DateTime of the real-time peripheral, which the source
  uses as the SDK's \<open>datetime_t\<close> (declared outside the repository): a signed 16-bit
  \<open>year\<close> and signed 8-bit fields otherwise, as the initialiser \<open>.year = -1\<close> of
  \<open>alarmtime\<close> needs. Fields are kept as machine words; \<open>sint\<close> reads them as the
  signed values the C code compares, and \<open>+\<close>, \<open>-\<close> wrap as the store back into the
  narrow field does. The field \<open>min\<close> of the source is \<open>min'\<close> here.
\<close>

record datetime_t =
  year :: "16 word"
  month :: "8 word"
  day :: "8 word"
  dotw :: "8 word"
  hour :: "8 word"
  min' :: "8 word"
  sec :: "8 word"

text \<open>The modes are \<open>#define\<close>d constants stored in \<open>uint8_t current_mode\<close>.\<close>

definition MENU :: "8 word" where "MENU = 0"
definition CLOCK :: "8 word" where "CLOCK = 1"
definition SET_CLOCK_YEAR :: "8 word" where "SET_CLOCK_YEAR = 2"
definition SET_CLOCK_MONTH :: "8 word" where "SET_CLOCK_MONTH = 3"
definition SET_CLOCK_DAY :: "8 word" where "SET_CLOCK_DAY = 4"
definition SET_CLOCK_WEEKDAY :: "8 word" where "SET_CLOCK_WEEKDAY = 5"
definition SET_CLOCK_HOUR :: "8 word" where "SET_CLOCK_HOUR = 6"
definition SET_CLOCK_MIN :: "8 word" where "SET_CLOCK_MIN = 7"
definition SET_CLOCK_SEC :: "8 word" where "SET_CLOCK_SEC = 8"
definition SET_CLOCK_FINAL :: "8 word" where "SET_CLOCK_FINAL = 9"
definition ALARM_MENU :: "8 word" where "ALARM_MENU = 10"
definition DISABLE_ALARM :: "8 word" where "DISABLE_ALARM = 11"
definition SET_ALARM_HOUR :: "8 word" where "SET_ALARM_HOUR = 12"
definition SET_ALARM_MIN :: "8 word" where "SET_ALARM_MIN = 13"
definition SET_ALARM_SEC :: "8 word" where "SET_ALARM_SEC = 14"
definition SET_ALARM_FINAL :: "8 word" where "SET_ALARM_FINAL = 15"
definition SLEEP_MODE :: "8 word" where "SLEEP_MODE = 16"

lemmas mode_defs =
  MENU_def CLOCK_def SET_CLOCK_YEAR_def SET_CLOCK_MONTH_def SET_CLOCK_DAY_def
  SET_CLOCK_WEEKDAY_def SET_CLOCK_HOUR_def SET_CLOCK_MIN_def SET_CLOCK_SEC_def
  SET_CLOCK_FINAL_def ALARM_MENU_def DISABLE_ALARM_def SET_ALARM_HOUR_def
  SET_ALARM_MIN_def SET_ALARM_SEC_def SET_ALARM_FINAL_def SLEEP_MODE_def

definition WAIT_DURATION_MS :: nat where "WAIT_DURATION_MS = 20"
definition BUZZER_FREQ :: "64 word" where "BUZZER_FREQ = 466"
definition MAX_ALARM_TIME_SEC :: nat where "MAX_ALARM_TIME_SEC = 60"
definition SLEEP_MODE_ACTIVATION_TIME_MS :: nat where "SLEEP_MODE_ACTIVATION_TIME_MS = 10000"

text \<open>
  The globals shared by both cores. \<open>rtc_alarm\<close> is the one piece of peripheral state
  the model keeps: the alarm registered by the last \<open>rtc_set_alarm\<close>, removed by
  \<open>rtc_disable_alarm\<close>.
\<close>

record state =
  datetime_set :: bool
  alarm_enabled :: bool
  alarm_fired :: bool
  current_mode :: "8 word"
  menu_index :: "8 word"
  alarm_count :: "8 word"
  sleep_mode_count :: "16 word"
  alarm_settime :: datetime_t
  set_date :: datetime_t
  alarmtime :: datetime_t
  date :: datetime_t
  rtc_alarm :: "datetime_t option"

text \<open>
  Modelled from the spec: the real-time peripheral's \<open>arm_alarm\<close> and \<open>disarm_alarm\<close>
  (the SDK's \<open>rtc_set_alarm\<close> and \<open>rtc_disable_alarm\<close>, whose code is not in the
  repository): arming installs the given time, disarming removes the registration.
\<close>

definition rtc_set_alarm :: "datetime_t \<Rightarrow> state \<Rightarrow> state" where
  "rtc_set_alarm t s = s\<lparr>rtc_alarm := Some t\<rparr>"

definition rtc_disable_alarm :: "state \<Rightarrow> state" where
  "rtc_disable_alarm s = s\<lparr>rtc_alarm := None\<rparr>"

text \<open>The compiled defaults of the globals; \<open>alarm_settime\<close> and \<open>set_date\<close> are zero-initialised.\<close>

definition zero_datetime :: datetime_t where
  "zero_datetime = \<lparr>year = 0, month = 0, day = 0, dotw = 0, hour = 0, min' = 0, sec = 0\<rparr>"

definition init_state :: state where
  "init_state =
     \<lparr>datetime_set = False, alarm_enabled = False, alarm_fired = False,
      current_mode = MENU, menu_index = 0, alarm_count = 0, sleep_mode_count = 0,
      alarm_settime = zero_datetime, set_date = zero_datetime,
      alarmtime = \<lparr>year = -1, month = -1, day = -1, dotw = -1, hour = 8, min' = 0, sec = 0\<rparr>,
      date = \<lparr>year = 2022, month = 7, day = 1, dotw = 5, hour = 0, min' = 0, sec = 0\<rparr>,
      rtc_alarm = None\<rparr>"

section \<open>Calendar utility\<close>

definition number_of_days :: "16 word \<Rightarrow> 8 word \<Rightarrow> 8 word" where
  "number_of_days y m =
     (if m = 1 \<or> m = 3 \<or> m = 5 \<or> m = 7 \<or> m = 8 \<or> m = 10 \<or> m = 12
      then 31
      else if m = 4 \<or> m = 6 \<or> m = 9 \<or> m = 11
      then 30
      else if y mod 400 = 0 then 29
      else if y mod 100 = 0 then 28
      else if y mod 4 = 0 then 29
      else 28)"

text \<open>The Gregorian rule in the words of the specification, on plain numbers.\<close>

definition gregorian_days :: "nat \<Rightarrow> nat \<Rightarrow> nat" where
  "gregorian_days y m =
     (if m \<in> {1, 3, 5, 7, 8, 10, 12} then 31
      else if m \<in> {4, 6, 9, 11} then 30
      else if 400 dvd y \<or> (4 dvd y \<and> \<not> 100 dvd y) then 29
      else 28)"

section \<open>The control loop of core 1\<close>

text \<open>
  Modelled from the spec: the answers of the external collaborators during one
  iteration of the loop in \<open>core1_main\<close>. The four button signals are the levels the
  \<open>gpio_get\<close> polls of the \<open>if\<close>/\<open>else if\<close> chain read; \<open>released\<close> says whether the
  button found pressed is ever released (the loop \<open>while (gpio_get(B));\<close> that
  follows every detected press returns only then). \<open>rtc_get_datetime\<close> is what the
  peripheral's \<open>get_datetime\<close> delivers (\<open>None\<close>: it returns false, the clock is not
  running, and the target is left untouched); \<open>rtc_set_datetime\<close> is what its
  \<open>set_datetime\<close> returns (false: a field is out of range).
\<close>

record input =
  LEFT_BUTTON :: bool
  RIGHT_BUTTON :: bool
  BACK_BUTTON :: bool
  SELECT_BUTTON :: bool
  released :: bool
  rtc_get_datetime :: "datetime_t option"
  rtc_set_datetime :: bool

text \<open>\<open>while (gpio_get(B));\<close> followed by the branch's assignments; \<open>None\<close>: the wait never ends.\<close>

definition wait_release :: "input \<Rightarrow> state \<Rightarrow> state option" where
  "wait_release i s = (if released i then Some s else None)"

text \<open>
  The chain \<open>if (LEFT) .. else if (RIGHT) .. else if (SELECT) .. else if (BACK) ..\<close>
  shared by the menus and the wizard fields, with the four branch bodies as arguments.
\<close>

definition poll_buttons ::
  "input \<Rightarrow> (state \<Rightarrow> state) \<Rightarrow> (state \<Rightarrow> state) \<Rightarrow> (state \<Rightarrow> state) \<Rightarrow> (state \<Rightarrow> state) \<Rightarrow>
   state \<Rightarrow> state option" where
  "poll_buttons i on_left on_right on_select on_back s =
     (if LEFT_BUTTON i then wait_release i (on_left s)
      else if RIGHT_BUTTON i then wait_release i (on_right s)
      else if SELECT_BUTTON i then wait_release i (on_select s)
      else if BACK_BUTTON i then wait_release i (on_back s)
      else Some s)"

definition set_mode :: "8 word \<Rightarrow> state \<Rightarrow> state" where
  "set_mode m s = s\<lparr>current_mode := m\<rparr>"

text \<open>The tail of the \<open>CLOCK\<close> branch: count the iteration, sleep at the threshold.\<close>

definition count_idle :: "state \<Rightarrow> state" where
  "count_idle s =
     (let s1 = s\<lparr>sleep_mode_count := sleep_mode_count s + 1\<rparr>
      in if unat (sleep_mode_count s1) = SLEEP_MODE_ACTIVATION_TIME_MS div WAIT_DURATION_MS
         then s1\<lparr>sleep_mode_count := 0, current_mode := SLEEP_MODE\<rparr>
         else s1)"

definition clock_mode :: "input \<Rightarrow> state \<Rightarrow> state option" where
  "clock_mode i s =
     (if BACK_BUTTON i
      then map_option count_idle
             (wait_release i (s\<lparr>sleep_mode_count := 0, current_mode := MENU\<rparr>))
      else Some (count_idle s))"

text \<open>
  \<open>SLEEP_MODE\<close>: the first loop polls until some button is pressed (an iteration that
  sees none leaves the state as it is, still waiting), the second waits for the release.
\<close>

definition sleep_mode :: "input \<Rightarrow> state \<Rightarrow> state option" where
  "sleep_mode i s =
     (if \<not> SELECT_BUTTON i \<and> \<not> BACK_BUTTON i \<and> \<not> LEFT_BUTTON i \<and> \<not> RIGHT_BUTTON i
      then Some s
      else wait_release i (set_mode CLOCK s))"

definition menu_select :: "input \<Rightarrow> state \<Rightarrow> state" where
  "menu_select i s =
     (let s1 =
        (if menu_index s = 0 then set_mode CLOCK s
         else if menu_index s = 1
         then (let s2 = set_mode SET_CLOCK_YEAR s
               in case rtc_get_datetime i of None \<Rightarrow> s2 | Some d \<Rightarrow> s2\<lparr>set_date := d\<rparr>)
         else if menu_index s = 2 then set_mode ALARM_MENU s
         else s)
      in s1\<lparr>menu_index := 0\<rparr>)"

definition month_select :: "state \<Rightarrow> state" where
  "month_select s =
     (let d = set_date s;
          day_num = number_of_days (year d) (month d);
          s1 = s\<lparr>set_date := d\<lparr>day := (if sint (day d) > uint day_num then day_num else day d)\<rparr>\<rparr>
      in set_mode SET_CLOCK_DAY s1)"

definition day_left :: "state \<Rightarrow> state" where
  "day_left s =
     (let d = set_date s; day_num = number_of_days (year d) (month d)
      in s\<lparr>set_date := d\<lparr>day := (if day d = 1 then day_num else day d - 1)\<rparr>\<rparr>)"

definition day_right :: "state \<Rightarrow> state" where
  "day_right s =
     (let d = set_date s; day_num = number_of_days (year d) (month d)
      in s\<lparr>set_date := d\<lparr>day := (if sint (day d) = uint day_num then 1 else day d + 1)\<rparr>\<rparr>)"

definition clock_commit :: "input \<Rightarrow> state \<Rightarrow> state" where
  "clock_commit i s = set_mode SET_CLOCK_FINAL (s\<lparr>datetime_set := rtc_set_datetime i\<rparr>)"

definition alarm_menu_select :: "state \<Rightarrow> state" where
  "alarm_menu_select s =
     (let s1 =
        (if menu_index s = 0
         then (let s2 = (if alarm_enabled s then rtc_disable_alarm s
                         else rtc_set_alarm (alarmtime s) s)
               in set_mode DISABLE_ALARM (s2\<lparr>alarm_enabled := \<not> alarm_enabled s2\<rparr>))
         else if menu_index s = 1
         then (set_mode SET_ALARM_HOUR s)\<lparr>alarm_settime := alarmtime s\<rparr>
         else s)
      in s1\<lparr>menu_index := 0\<rparr>)"

definition alarm_commit :: "state \<Rightarrow> state" where
  "alarm_commit s =
     (let s1 = s\<lparr>alarmtime := alarm_settime s\<rparr>;
          s2 = rtc_set_alarm (alarmtime s1) s1
      in set_mode SET_ALARM_FINAL (s2\<lparr>alarm_enabled := True\<rparr>))"

text \<open>One iteration of \<open>while (true)\<close> in \<open>core1_main\<close>; \<open>None\<close>: the iteration never ends.\<close>

definition step :: "input \<Rightarrow> state \<Rightarrow> state option" where
  "step i s =
     (if current_mode s = CLOCK then clock_mode i s
      else if current_mode s = SLEEP_MODE then sleep_mode i s
      else if current_mode s = MENU then
        (if LEFT_BUTTON i
         then wait_release i
                (s\<lparr>menu_index := (if menu_index s = 0 then 2 else menu_index s - 1)\<rparr>)
         else if RIGHT_BUTTON i
         then wait_release i
                (s\<lparr>menu_index := (if menu_index s = 2 then 0 else menu_index s + 1)\<rparr>)
         else if SELECT_BUTTON i then wait_release i (menu_select i s)
         else Some s)
      else if current_mode s = SET_CLOCK_YEAR then
        poll_buttons i
          (\<lambda>s. s\<lparr>set_date := (set_date s)
                  \<lparr>year := (if year (set_date s) = 0 then 4095 else year (set_date s) - 1)\<rparr>\<rparr>)
          (\<lambda>s. s\<lparr>set_date := (set_date s)
                  \<lparr>year := (if year (set_date s) = 4095 then 0 else year (set_date s) + 1)\<rparr>\<rparr>)
          (set_mode SET_CLOCK_MONTH)
          (set_mode MENU) s
      else if current_mode s = SET_CLOCK_MONTH then
        poll_buttons i
          (\<lambda>s. s\<lparr>set_date := (set_date s)
                  \<lparr>month := (if month (set_date s) = 1 then 12 else month (set_date s) - 1)\<rparr>\<rparr>)
          (\<lambda>s. s\<lparr>set_date := (set_date s)
                  \<lparr>month := (if month (set_date s) = 12 then 1 else month (set_date s) + 1)\<rparr>\<rparr>)
          month_select
          (set_mode SET_CLOCK_YEAR) s
      else if current_mode s = SET_CLOCK_DAY then
        poll_buttons i day_left day_right (set_mode SET_CLOCK_WEEKDAY) (set_mode SET_CLOCK_MONTH) s
      else if current_mode s = SET_CLOCK_WEEKDAY then
        poll_buttons i
          (\<lambda>s. s\<lparr>set_date := (set_date s)
                  \<lparr>dotw := (if dotw (set_date s) = 0 then 6 else dotw (set_date s) - 1)\<rparr>\<rparr>)
          (\<lambda>s. s\<lparr>set_date := (set_date s)
                  \<lparr>dotw := (if dotw (set_date s) = 6 then 0 else dotw (set_date s) + 1)\<rparr>\<rparr>)
          (set_mode SET_CLOCK_HOUR)
          (set_mode SET_CLOCK_DAY) s
      else if current_mode s = SET_CLOCK_HOUR then
        poll_buttons i
          (\<lambda>s. s\<lparr>set_date := (set_date s)
                  \<lparr>hour := (if hour (set_date s) = 0 then 23 else hour (set_date s) - 1)\<rparr>\<rparr>)
          (\<lambda>s. s\<lparr>set_date := (set_date s)
                  \<lparr>hour := (if hour (set_date s) = 23 then 0 else hour (set_date s) + 1)\<rparr>\<rparr>)
          (set_mode SET_CLOCK_MIN)
          (set_mode SET_CLOCK_WEEKDAY) s
      else if current_mode s = SET_CLOCK_MIN then
        poll_buttons i
          (\<lambda>s. s\<lparr>set_date := (set_date s)
                  \<lparr>min' := (if min' (set_date s) = 0 then 59 else min' (set_date s) - 1)\<rparr>\<rparr>)
          (\<lambda>s. s\<lparr>set_date := (set_date s)
                  \<lparr>min' := (if min' (set_date s) = 59 then 0 else min' (set_date s) + 1)\<rparr>\<rparr>)
          (set_mode SET_CLOCK_SEC)
          (set_mode SET_CLOCK_HOUR) s
      else if current_mode s = SET_CLOCK_SEC then
        poll_buttons i
          (\<lambda>s. s\<lparr>set_date := (set_date s)
                  \<lparr>sec := (if sec (set_date s) = 0 then 59 else sec (set_date s) - 1)\<rparr>\<rparr>)
          (\<lambda>s. s\<lparr>set_date := (set_date s)
                  \<lparr>sec := (if sec (set_date s) = 59 then 0 else sec (set_date s) + 1)\<rparr>\<rparr>)
          (clock_commit i)
          (set_mode SET_CLOCK_MIN) s
      else if current_mode s = ALARM_MENU then
        poll_buttons i
          (\<lambda>s. s\<lparr>menu_index := (if menu_index s = 0 then 1 else 0)\<rparr>)
          (\<lambda>s. s\<lparr>menu_index := (if menu_index s = 1 then 0 else 1)\<rparr>)
          alarm_menu_select
          (\<lambda>s. (set_mode MENU s)\<lparr>menu_index := 0\<rparr>) s
      else if current_mode s = SET_ALARM_HOUR then
        poll_buttons i
          (\<lambda>s. s\<lparr>alarm_settime := (alarm_settime s)
                  \<lparr>hour := (if hour (alarm_settime s) = 0 then 23 else hour (alarm_settime s) - 1)\<rparr>\<rparr>)
          (\<lambda>s. s\<lparr>alarm_settime := (alarm_settime s)
                  \<lparr>hour := (if hour (alarm_settime s) = 23 then 0 else hour (alarm_settime s) + 1)\<rparr>\<rparr>)
          (set_mode SET_ALARM_MIN)
          (set_mode MENU) s
      else if current_mode s = SET_ALARM_MIN then
        poll_buttons i
          (\<lambda>s. s\<lparr>alarm_settime := (alarm_settime s)
                  \<lparr>min' := (if min' (alarm_settime s) = 0 then 59 else min' (alarm_settime s) - 1)\<rparr>\<rparr>)
          (\<lambda>s. s\<lparr>alarm_settime := (alarm_settime s)
                  \<lparr>min' := (if min' (alarm_settime s) = 59 then 0 else min' (alarm_settime s) + 1)\<rparr>\<rparr>)
          (set_mode SET_ALARM_SEC)
          (set_mode SET_ALARM_HOUR) s
      else if current_mode s = SET_ALARM_SEC then
        poll_buttons i
          (\<lambda>s. s\<lparr>alarm_settime := (alarm_settime s)
                  \<lparr>sec := (if sec (alarm_settime s) = 0 then 59 else sec (alarm_settime s) - 1)\<rparr>\<rparr>)
          (\<lambda>s. s\<lparr>alarm_settime := (alarm_settime s)
                  \<lparr>sec := (if sec (alarm_settime s) = 59 then 0 else sec (alarm_settime s) + 1)\<rparr>\<rparr>)
          alarm_commit
          (set_mode SET_ALARM_MIN) s
      else if current_mode s = SET_ALARM_FINAL \<or> current_mode s = SET_CLOCK_FINAL
              \<or> current_mode s = DISABLE_ALARM then
        (if SELECT_BUTTON i then wait_release i (set_mode CLOCK s) else Some s)
      else Some s)"

text \<open>A run of the loop over a list of inputs, stuck as soon as one iteration is.\<close>

fun run :: "input list \<Rightarrow> state \<Rightarrow> state option" where
  "run [] s = Some s"
| "run (i # is) s = (case step i s of None \<Rightarrow> None | Some s' \<Rightarrow> run is s')"

text \<open>Inputs that press and release a single button, and the idle input.\<close>

definition no_press :: input where
  "no_press = \<lparr>LEFT_BUTTON = False, RIGHT_BUTTON = False, BACK_BUTTON = False,
               SELECT_BUTTON = False, released = True, rtc_get_datetime = None,
               rtc_set_datetime = True\<rparr>"

definition press_left :: input where "press_left = no_press\<lparr>LEFT_BUTTON := True\<rparr>"
definition press_right :: input where "press_right = no_press\<lparr>RIGHT_BUTTON := True\<rparr>"
definition press_select :: input where "press_select = no_press\<lparr>SELECT_BUTTON := True\<rparr>"
definition press_back :: input where "press_back = no_press\<lparr>BACK_BUTTON := True\<rparr>"

text \<open>A select press whose \<open>rtc_set_datetime\<close> call is refused by the peripheral.\<close>

definition rejecting_select :: input where
  "rejecting_select = press_select\<lparr>rtc_set_datetime := False\<rparr>"

section \<open>The alarm callback\<close>

text \<open>
  Time is the 64-bit microsecond counter read by \<open>time_us_64\<close>. \<open>busy_wait_us\<close>
  waits at least the time asked for, and the calls and pin writes around it take time
  too: \<open>lag t\<close> is the time by which the waiting that starts at \<open>t\<close> overruns what was
  asked for, chosen by the hardware. \<open>gpio t\<close> is the level of the select button at
  time \<open>t\<close>. \<open>buzz\<close> is one period of the buzzer: two waits of \<open>500000 / freq\<close>
  microseconds. The LED and buzzer pins are outputs only and are not part of the state.
\<close>

definition buzz :: "(64 word \<Rightarrow> 64 word) \<Rightarrow> 64 word \<Rightarrow> 64 word \<Rightarrow> 64 word" where
  "buzz lag freq t =
     (if freq = 0 then t else t + 500000 div freq + 500000 div freq + lag t)"

text \<open>
  Both bounded waits of the callback have the shape
  \<open>while (c && time_us_64() < end) buzz(BUZZER_FREQ);\<close>
  where \<open>c\<close> reads the select button. \<open>None\<close>: the loop never ends.
\<close>

partial_function (option) buzz_while ::
  "(64 word \<Rightarrow> 64 word) \<Rightarrow> (64 word \<Rightarrow> bool) \<Rightarrow> 64 word \<Rightarrow> 64 word \<Rightarrow> 64 word option" where
  "buzz_while lag c end t =
     (if c t \<and> t < end then buzz_while lag c end (buzz lag BUZZER_FREQ t) else Some t)"

text \<open>\<open>while (!gpio_get(SELECT_BUTTON) && time_us_64() < end) buzz(BUZZER_FREQ);\<close>\<close>

definition buzz_until_pressed ::
  "(64 word \<Rightarrow> 64 word) \<Rightarrow> (64 word \<Rightarrow> bool) \<Rightarrow> 64 word \<Rightarrow> 64 word \<Rightarrow> 64 word option" where
  "buzz_until_pressed lag gpio end t = buzz_while lag (\<lambda>t. \<not> gpio t) end t"

text \<open>\<open>while (gpio_get(SELECT_BUTTON) && time_us_64() < end) buzz(BUZZER_FREQ);\<close>\<close>

definition buzz_while_pressed ::
  "(64 word \<Rightarrow> 64 word) \<Rightarrow> (64 word \<Rightarrow> bool) \<Rightarrow> 64 word \<Rightarrow> 64 word \<Rightarrow> 64 word option" where
  "buzz_while_pressed lag gpio end t = buzz_while lag (\<lambda>t. gpio t) end t"

text \<open>
  \<open>while (gpio_get(SELECT_BUTTON));\<close> has an empty body; it is followed at the
  resolution of the timer, one microsecond per poll.
\<close>

partial_function (option) spin_while_pressed ::
  "(64 word \<Rightarrow> bool) \<Rightarrow> 64 word \<Rightarrow> 64 word option" where
  "spin_while_pressed gpio t = (if gpio t then spin_while_pressed gpio (t + 1) else Some t)"

text \<open>
  \<open>alarm_callback\<close> entered at time \<open>now\<close>: the result is the time at which
  \<open>alarm_fired\<close> is cleared, the time at which the callback returns, and the globals
  it leaves. From \<open>now\<close> until the first of these times the globals are
  \<open>s\<lparr>alarm_fired := True\<rparr>\<close>. \<open>None\<close>: the callback never returns.
\<close>

definition alarm_callback ::
  "(64 word \<Rightarrow> 64 word) \<Rightarrow> (64 word \<Rightarrow> bool) \<Rightarrow> 64 word \<Rightarrow> state \<Rightarrow>
   (64 word \<times> 64 word \<times> state) option" where
  "alarm_callback lag gpio now s =
     (let s1 = s\<lparr>alarm_fired := True\<rparr>;
          start = now;
          duration_us = of_nat (MAX_ALARM_TIME_SEC * 1000000);
          end = start + duration_us
      in case buzz_until_pressed lag gpio end start of
           None \<Rightarrow> None
         | Some t1 \<Rightarrow>
             (case buzz_while_pressed lag gpio end t1 of
                None \<Rightarrow> None
              | Some t2 \<Rightarrow>
                  (let s2 = s1\<lparr>alarm_fired := False, alarm_count := 0\<rparr>
                   in case spin_while_pressed gpio t2 of
                        None \<Rightarrow> None
                      | Some t3 \<Rightarrow>
                          Some (t2, t3 + of_nat (WAIT_DURATION_MS * 1000) + lag t3, s2))))"

text \<open>Hardware that never overruns a wait, and hardware that overruns each by 7 microseconds.\<close>

definition no_lag :: "64 word \<Rightarrow> 64 word" where
  "no_lag t = 0"

definition lag_7us :: "64 word \<Rightarrow> 64 word" where
  "lag_7us t = 7"

text \<open>The select button never pressed.\<close>

definition never_pressed :: "64 word \<Rightarrow> bool" where
  "never_pressed t = False"

text \<open>The select button held from 1 ms to 3 ms after time zero.\<close>

definition tap :: "64 word \<Rightarrow> bool" where
  "tap t = (1000 \<le> t \<and> t < 3000)"

section \<open>The display loop of core 0\<close>

datatype fault = OutOfBounds

definition weekdays :: "string list" where
  "weekdays = [''Sunday'', ''Monday'', ''Tuesday'', ''Wednesday'', ''Thursday'', ''Friday'',
               ''Saturday'']"

definition months :: "string list" where
  "months = [''Jan'', ''Feb'', ''Mar'', ''Apr'', ''May'', ''Jun'', ''Jul'', ''Aug'', ''Sep'',
             ''Oct'', ''Nov'', ''Dec'']"

definition weekday_pixel_offset :: "int list" where
  "weekday_pixel_offset = [28, 24, 22, 8, 18, 32, 20]"

text \<open>An array read; C leaves a read outside the array undefined, the model reports it.\<close>

definition array_at :: "'a list \<Rightarrow> int \<Rightarrow> fault + 'a" where
  "array_at xs k = (if 0 \<le> k \<and> k < int (length xs) then Inr (xs ! nat k) else Inl OutOfBounds)"

definition bind_fault :: "fault + 'a \<Rightarrow> ('a \<Rightarrow> fault + 'b) \<Rightarrow> fault + 'b" where
  "bind_fault r f = (case r of Inl e \<Rightarrow> Inl e | Inr x \<Rightarrow> f x)"

text \<open>\<open>sprintf\<close> with \<open>%0<w>hi\<close>: a signed decimal, zero-padded to width \<open>w\<close>.\<close>

fun dec :: "nat \<Rightarrow> string" where
  "dec n = (if n < 10 then [char_of (48 + n)] else dec (n div 10) @ [char_of (48 + n mod 10)])"

definition zero_pad :: "nat \<Rightarrow> string \<Rightarrow> string" where
  "zero_pad w ds = replicate (w - length ds) (CHR ''0'') @ ds"

definition fmt_hi :: "nat \<Rightarrow> int \<Rightarrow> string" where
  "fmt_hi w v = (if v < 0 then CHR ''-'' # zero_pad (w - 1) (dec (nat (- v)))
                 else zero_pad w (dec (nat v)))"

definition fmt_time :: "datetime_t \<Rightarrow> string" where
  "fmt_time d = fmt_hi 2 (sint (hour d)) @ '':'' @ fmt_hi 2 (sint (min' d)) @ '':''
                @ fmt_hi 2 (sint (sec d))"

text \<open>
  Modelled from the spec: the display driver is an external collaborator that receives
  one frame per display cycle. A frame is the list of \<open>oled.print(x, y, text)\<close> calls
  between \<open>clear\<close> and \<open>show\<close>.
\<close>

type_synonym frame = "(int \<times> int \<times> string) list"

definition show_set_clock :: "state \<Rightarrow> fault + frame" where
  "show_set_clock s =
     (let d = set_date s; m = current_mode s
      in bind_fault
           (if m = SET_CLOCK_YEAR then Inr (''YEAR'', fmt_hi 4 (sint (year d)))
            else if m = SET_CLOCK_MONTH
            then bind_fault (array_at months (sint (month d) - 1)) (\<lambda>mo. Inr (''MONTH'', mo))
            else if m = SET_CLOCK_DAY then Inr (''DAY'', fmt_hi 2 (sint (day d)))
            else if m = SET_CLOCK_WEEKDAY
            then bind_fault (array_at weekdays (sint (dotw d))) (\<lambda>wd. Inr (''WEEKDAY'', wd))
            else if m = SET_CLOCK_HOUR then Inr (''HOUR'', fmt_hi 2 (sint (hour d)))
            else if m = SET_CLOCK_MIN then Inr (''MIN'', fmt_hi 2 (sint (min' d)))
            else Inr (''SEC'', fmt_hi 2 (sint (sec d))))
           (\<lambda>(label, oled_str). Inr [(8, 8, label), (8, 28, oled_str)]))"

definition show_set_alarm :: "state \<Rightarrow> frame" where
  "show_set_alarm s =
     (let d = alarm_settime s; m = current_mode s;
          (label, oled_str) =
            (if m = SET_ALARM_HOUR then (''ALARM HOUR'', fmt_hi 2 (sint (hour d)))
             else if m = SET_ALARM_MIN then (''ALARM MIN'', fmt_hi 2 (sint (min' d)))
             else (''ALARM SEC'', fmt_hi 2 (sint (sec d))))
      in [(0, 8, label), (0, 28, oled_str)])"

definition show_clock :: "datetime_t option \<Rightarrow> state \<Rightarrow> fault + frame \<times> state" where
  "show_clock rtc s =
     (case rtc of
        None \<Rightarrow> Inr ([(24, 8, ''RTC NOT''), (24, 32, ''WORKING'')], s)
      | Some d \<Rightarrow>
          bind_fault (array_at months (sint (month d) - 1)) (\<lambda>mo.
          bind_fault (array_at weekdays (sint (dotw d))) (\<lambda>wd.
          bind_fault (array_at weekday_pixel_offset (sint (dotw d))) (\<lambda>off.
            Inr ([(2, 0, fmt_hi 2 (sint (day d)) @ '' '' @ mo @ '' '' @ fmt_hi 4 (sint (year d))),
                  (16, 20, fmt_time d),
                  (off, 40, wd)],
                 s\<lparr>date := d\<rparr>)))))"

text \<open>
  One iteration of \<open>while (true)\<close> in \<open>main\<close>: the frame shown and the globals after
  it. \<open>rtc\<close> is what \<open>rtc_get_datetime(&date)\<close> delivers in \<open>CLOCK\<close> mode.
\<close>

definition display :: "datetime_t option \<Rightarrow> state \<Rightarrow> fault + frame \<times> state" where
  "display rtc s =
     (if alarm_fired s then
        (if alarm_count s < 8
         then Inr ([(32, 8, ''ALARM''), (20, 32, fmt_time (alarmtime s))],
                   s\<lparr>alarm_count := alarm_count s + 1\<rparr>)
         else Inr ([], s\<lparr>alarm_count := 0\<rparr>))
      else if current_mode s = MENU then
        Inr ([(8, 0, ''CLOCK''), (8, 20, ''SET CLOCK''), (8, 40, ''ALARM''),
              (0, 20 * uint (menu_index s), ''-'')], s)
      else if current_mode s = ALARM_MENU then
        Inr ([(8, 0, if alarm_enabled s then ''DISABLE'' else ''ENABLE''), (8, 20, ''SET''),
              (0, 20 * uint (menu_index s), ''-'')], s)
      else if current_mode s = DISABLE_ALARM then
        Inr ([(12, 8, ''ALARM IS''),
              (if alarm_enabled s then (14, 32, ''ENABLED'') else (12, 32, ''DISABLED''))], s)
      else if current_mode s = CLOCK then show_clock rtc s
      else if current_mode s = SLEEP_MODE then Inr ([], s)
      else if SET_CLOCK_YEAR \<le> current_mode s \<and> current_mode s \<le> SET_CLOCK_SEC then
        bind_fault (show_set_clock s) (\<lambda>f. Inr (f, s))
      else if current_mode s = SET_CLOCK_FINAL then
        Inr (if datetime_set s then [(30, 8, ''CLOCK''), (30, 32, ''IS SET'')]
             else [(8, 8, ''INVALID''), (24, 32, ''DATE'')], s)
      else if SET_ALARM_HOUR \<le> current_mode s \<and> current_mode s \<le> SET_ALARM_SEC then
        Inr (show_set_alarm s, s)
      else if current_mode s = SET_ALARM_FINAL then
        Inr ([(30, 8, ''ALARM''), (30, 32, ''IS SET'')], s)
      else Inr ([], s))"

section \<open>Well-formed dates and single-button inputs\<close>

text \<open>
  The ranges of the specification's DateTime, field by field, on the signed values of
  the fields.
\<close>

definition year_ok :: "datetime_t \<Rightarrow> bool" where
  "year_ok d = (0 \<le> sint (year d) \<and> sint (year d) \<le> 4095)"
definition month_ok :: "datetime_t \<Rightarrow> bool" where
  "month_ok d = (1 \<le> sint (month d) \<and> sint (month d) \<le> 12)"
definition day_ok :: "datetime_t \<Rightarrow> bool" where
  "day_ok d = (1 \<le> sint (day d) \<and> sint (day d) \<le> uint (number_of_days (year d) (month d)))"
definition dotw_ok :: "datetime_t \<Rightarrow> bool" where
  "dotw_ok d = (0 \<le> sint (dotw d) \<and> sint (dotw d) \<le> 6)"
definition hour_ok :: "datetime_t \<Rightarrow> bool" where
  "hour_ok d = (0 \<le> sint (hour d) \<and> sint (hour d) \<le> 23)"
definition min_ok :: "datetime_t \<Rightarrow> bool" where
  "min_ok d = (0 \<le> sint (min' d) \<and> sint (min' d) \<le> 59)"
definition sec_ok :: "datetime_t \<Rightarrow> bool" where
  "sec_ok d = (0 \<le> sint (sec d) \<and> sint (sec d) \<le> 59)"

text \<open>The ranges of the fields that index the display's tables or are shown as times.\<close>

definition fields_in_range :: "datetime_t \<Rightarrow> bool" where
  "fields_in_range d = (month_ok d \<and> dotw_ok d \<and> hour_ok d \<and> min_ok d \<and> sec_ok d)"

text \<open>A released press of the right button alone, and a released press of left or right.\<close>

definition is_right :: "input \<Rightarrow> bool" where
  "is_right i = (\<not> LEFT_BUTTON i \<and> RIGHT_BUTTON i \<and> released i)"


definition is_edit :: "input \<Rightarrow> bool" where
  "is_edit i = (released i \<and> (LEFT_BUTTON i \<or> RIGHT_BUTTON i))"


text \<open>A draft on the 29th of February 2024, in the day field of the clock wizard.\<close>

definition leap_day :: state where
  "leap_day = init_state\<lparr>current_mode := SET_CLOCK_DAY,
     set_date := \<lparr>year = 2024, month = 2, day = 29, dotw = 4, hour = 0, min' = 0, sec = 0\<rparr>\<rparr>"


text \<open>The same draft one field later, with the weekday moved from 4 to 3.\<close>

definition weekday_draft :: state where
  "weekday_draft = leap_day\<lparr>current_mode := SET_CLOCK_WEEKDAY,
     set_date := (set_date leap_day)\<lparr>dotw := 3\<rparr>\<rparr>"

text \<open>
  The states of the alarm scenario: the alarm menu on its second entry, and the draft
  after the hour, the minute and the second have been set to 07:30:00.
\<close>

definition menu_start :: state where
  "menu_start = init_state\<lparr>current_mode := ALARM_MENU, menu_index := 1\<rparr>"

definition after_hour :: state where
  "after_hour = init_state\<lparr>current_mode := SET_ALARM_HOUR,
     alarm_settime := (alarmtime init_state)\<lparr>hour := 7\<rparr>\<rparr>"

definition after_min :: state where
  "after_min = init_state\<lparr>current_mode := SET_ALARM_MIN,
     alarm_settime := (alarmtime init_state)\<lparr>hour := 7, min' := 30\<rparr>\<rparr>"

definition after_sec :: state where
  "after_sec = init_state\<lparr>current_mode := SET_ALARM_SEC,
     alarm_settime := (alarmtime init_state)\<lparr>hour := 7, min' := 30\<rparr>\<rparr>"

section \<open>Calendar utility: correctness\<close>

lemma word16_mod_zero_iff: "(y :: 16 word) mod k = 0 \<longleftrightarrow> unat y mod unat k = 0"
  by (simp add: word_unat_eq_iff unat_mod)

text \<open>
  C1. For every year in 0..4095 and month in 1..12, \<open>number_of_days\<close> returns the
  Gregorian day count: 31 for the long months, 30 for April, June, September and
  November, and for February 29 exactly in the years divisible by 400 or by 4 and
  not by 100; it returns 28 for (1900, 2) and 29 for (2000, 2).
\<close>

theorem number_of_days_gregorian:
  "(unat y \<le> 4095 \<longrightarrow> 1 \<le> unat m \<longrightarrow> unat m \<le> 12 \<longrightarrow>
      unat (number_of_days y m) = gregorian_days (unat y) (unat m))
   \<and> number_of_days 1900 2 = 28 \<and> number_of_days 2000 2 = 29"
proof -
  have "unat (number_of_days y m) = gregorian_days (unat y) (unat m)"
    if "1 \<le> unat m" "unat m \<le> 12"
    using that
    apply (simp add: number_of_days_def gregorian_days_def word16_mod_zero_iff)
    apply (simp add: word_unat_eq_iff mod_eq_0_iff_dvd)
    done
  moreover have "number_of_days 1900 2 = 28" "number_of_days 2000 2 = 29"
    by (simp_all add: number_of_days_def)
  ultimately show ?thesis by simp
qed

theorem number_of_days_gregorian_witness:
  "unat (2024 :: 16 word) \<le> 4095 \<and> 1 \<le> unat (2 :: 8 word) \<and> unat (2 :: 8 word) \<le> 12
   \<and> unat (number_of_days 2024 2) = gregorian_days (unat (2024 :: 16 word)) (unat (2 :: 8 word))
   \<and> gregorian_days 2024 2 = 29"
  using number_of_days_gregorian [of 2024 2] by (simp add: gregorian_days_def)

section \<open>Idle timer and sleep mode\<close>

lemma count_idle_run:
  "current_mode s = CLOCK \<Longrightarrow> unat (sleep_mode_count s) + n < 500 \<Longrightarrow>
   run (replicate n no_press) s = Some (s\<lparr>sleep_mode_count := sleep_mode_count s + of_nat n\<rparr>)"
proof (induction n arbitrary: s)
  case 0
  then show ?case by simp
next
  case (Suc n)
  have ne: "unat (sleep_mode_count s + 1) \<noteq> 500"
    using Suc.prems(2) by (simp add: unat_word_ariths)
  have st: "step no_press s = Some (s\<lparr>sleep_mode_count := sleep_mode_count s + 1\<rparr>)"
    using Suc.prems(1) ne
    by (simp add: step_def clock_mode_def count_idle_def no_press_def Let_def
        SLEEP_MODE_ACTIVATION_TIME_MS_def WAIT_DURATION_MS_def)
  have "unat (sleep_mode_count s + 1) + n < 500"
    using Suc.prems(2) by (simp add: unat_word_ariths)
  then show ?case
    using Suc.IH [of "s\<lparr>sleep_mode_count := sleep_mode_count s + 1\<rparr>"] Suc.prems(1) st
    by (simp add: add.assoc)
qed

lemma clock_step:
  "current_mode s = CLOCK \<Longrightarrow> \<not> BACK_BUTTON i \<Longrightarrow>
   step i s = Some (if unat (sleep_mode_count s + 1) = 500
                    then s\<lparr>sleep_mode_count := 0, current_mode := SLEEP_MODE\<rparr>
                    else s\<lparr>sleep_mode_count := sleep_mode_count s + 1\<rparr>)"
  by (simp add: step_def clock_mode_def count_idle_def Let_def
        SLEEP_MODE_ACTIVATION_TIME_MS_def WAIT_DURATION_MS_def)

lemma run_append: "run (xs @ ys) s = (case run xs s of None \<Rightarrow> None | Some s' \<Rightarrow> run ys s')"
  by (induction xs arbitrary: s) (auto split: option.splits)

lemma idle_500:
  assumes "current_mode s = CLOCK" "sleep_mode_count s = 0"
  shows "run (replicate 500 no_press) s = Some (s\<lparr>current_mode := SLEEP_MODE\<rparr>)"
proof -
  have r: "replicate 500 no_press = replicate 499 no_press @ [no_press]"
    using replicate_add [of 499 1 no_press] by simp
  have a: "run (replicate 499 no_press) s = Some (s\<lparr>sleep_mode_count := 499\<rparr>)"
    using count_idle_run [of s 499] assms by simp
  have b: "step no_press (s\<lparr>sleep_mode_count := 499\<rparr>) = Some (s\<lparr>current_mode := SLEEP_MODE\<rparr>)"
    using assms clock_step [of "s\<lparr>sleep_mode_count := 499\<rparr>" no_press]
    by (simp add: no_press_def)
  show ?thesis unfolding r run_append a using b by simp
qed


lemma sleep_step:
  "current_mode s = SLEEP_MODE \<Longrightarrow>
   step i s = (if \<not> SELECT_BUTTON i \<and> \<not> BACK_BUTTON i \<and> \<not> LEFT_BUTTON i \<and> \<not> RIGHT_BUTTON i
               then Some s
               else if released i then Some (s\<lparr>current_mode := CLOCK\<rparr>) else None)"
  by (simp add: step_def sleep_mode_def wait_release_def set_mode_def mode_defs)

text \<open>
  C5. In \<open>CLOCK\<close> mode an iteration without the back button adds one to the idle
  counter; when the counter reaches 10000 / 20 = 500 it is reset to zero and the mode
  becomes \<open>SLEEP_MODE\<close>, so 500 idle iterations from a fresh counter end in
  \<open>SLEEP_MODE\<close>. In \<open>SLEEP_MODE\<close> any button press that is released leads to
  \<open>CLOCK\<close>, whichever button it is, and an iteration without a press keeps waiting.
\<close>

theorem idle_timer_sleep_wake:
  "(current_mode s = CLOCK \<and> \<not> BACK_BUTTON i \<longrightarrow>
      step i s = Some (if unat (sleep_mode_count s + 1)
                            = SLEEP_MODE_ACTIVATION_TIME_MS div WAIT_DURATION_MS
                       then s\<lparr>sleep_mode_count := 0, current_mode := SLEEP_MODE\<rparr>
                       else s\<lparr>sleep_mode_count := sleep_mode_count s + 1\<rparr>))
   \<and> (current_mode s = CLOCK \<and> sleep_mode_count s = 0 \<longrightarrow>
        (\<forall>n<500. run (replicate n no_press) s = Some (s\<lparr>sleep_mode_count := of_nat n\<rparr>))
        \<and> run (replicate 500 no_press) s = Some (s\<lparr>current_mode := SLEEP_MODE\<rparr>))
   \<and> (current_mode s = SLEEP_MODE
        \<and> (SELECT_BUTTON i \<or> BACK_BUTTON i \<or> LEFT_BUTTON i \<or> RIGHT_BUTTON i) \<and> released i \<longrightarrow>
        step i s = Some (s\<lparr>current_mode := CLOCK\<rparr>))
   \<and> (current_mode s = SLEEP_MODE
        \<and> \<not> SELECT_BUTTON i \<and> \<not> BACK_BUTTON i \<and> \<not> LEFT_BUTTON i \<and> \<not> RIGHT_BUTTON i \<longrightarrow>
        step i s = Some s)"
proof (intro conjI impI allI)
  assume "current_mode s = CLOCK \<and> \<not> BACK_BUTTON i"
  then show "step i s = Some (if unat (sleep_mode_count s + 1)
                            = SLEEP_MODE_ACTIVATION_TIME_MS div WAIT_DURATION_MS
                       then s\<lparr>sleep_mode_count := 0, current_mode := SLEEP_MODE\<rparr>
                       else s\<lparr>sleep_mode_count := sleep_mode_count s + 1\<rparr>)"
    using clock_step [of s i]
    by (simp add: SLEEP_MODE_ACTIVATION_TIME_MS_def WAIT_DURATION_MS_def)
next
  fix n :: nat
  assume "current_mode s = CLOCK \<and> sleep_mode_count s = 0" "n < 500"
  then show "run (replicate n no_press) s = Some (s\<lparr>sleep_mode_count := of_nat n\<rparr>)"
    using count_idle_run [of s n] by simp
next
  assume "current_mode s = CLOCK \<and> sleep_mode_count s = 0"
  then show "run (replicate 500 no_press) s = Some (s\<lparr>current_mode := SLEEP_MODE\<rparr>)"
    using idle_500 [of s] by simp
next
  assume "current_mode s = SLEEP_MODE
        \<and> (SELECT_BUTTON i \<or> BACK_BUTTON i \<or> LEFT_BUTTON i \<or> RIGHT_BUTTON i) \<and> released i"
  then show "step i s = Some (s\<lparr>current_mode := CLOCK\<rparr>)"
    using sleep_step [of s i] by auto
next
  assume "current_mode s = SLEEP_MODE
        \<and> \<not> SELECT_BUTTON i \<and> \<not> BACK_BUTTON i \<and> \<not> LEFT_BUTTON i \<and> \<not> RIGHT_BUTTON i"
  then show "step i s = Some s"
    using sleep_step [of s i] by simp
qed

theorem idle_timer_sleep_wake_witness:
  "current_mode (init_state\<lparr>current_mode := CLOCK\<rparr>) = CLOCK
   \<and> sleep_mode_count (init_state\<lparr>current_mode := CLOCK\<rparr>) = 0
   \<and> \<not> BACK_BUTTON no_press
   \<and> step no_press (init_state\<lparr>current_mode := CLOCK\<rparr>)
       = Some (init_state\<lparr>current_mode := CLOCK, sleep_mode_count := 1\<rparr>)
   \<and> run (replicate 500 no_press) (init_state\<lparr>current_mode := CLOCK\<rparr>)
       = Some (init_state\<lparr>current_mode := SLEEP_MODE\<rparr>)
   \<and> BACK_BUTTON press_back \<and> released press_back
   \<and> step press_back (init_state\<lparr>current_mode := SLEEP_MODE\<rparr>)
       = Some (init_state\<lparr>current_mode := CLOCK\<rparr>)
   \<and> step no_press (init_state\<lparr>current_mode := SLEEP_MODE\<rparr>)
       = Some (init_state\<lparr>current_mode := SLEEP_MODE\<rparr>)"
  using idle_timer_sleep_wake [of "init_state\<lparr>current_mode := CLOCK\<rparr>" no_press]
    idle_timer_sleep_wake [of "init_state\<lparr>current_mode := SLEEP_MODE\<rparr>" press_back]
    idle_timer_sleep_wake [of "init_state\<lparr>current_mode := SLEEP_MODE\<rparr>" no_press]
  by (simp add: init_state_def no_press_def press_back_def mode_defs
      SLEEP_MODE_ACTIVATION_TIME_MS_def WAIT_DURATION_MS_def)

section \<open>Back navigation\<close>

lemma back_only:
  "\<not> LEFT_BUTTON i \<Longrightarrow> \<not> RIGHT_BUTTON i \<Longrightarrow> \<not> SELECT_BUTTON i \<Longrightarrow> BACK_BUTTON i \<Longrightarrow>
   released i \<Longrightarrow> poll_buttons i l r sl b s = Some (b s)"
  by (simp add: poll_buttons_def wait_release_def)

text \<open>
  C7 (as amended). A released press of the back button alone leaves the first field of
  either wizard for \<open>MENU\<close>: \<open>SET_CLOCK_YEAR\<close>, entered from \<open>MENU\<close>, and also
  \<open>SET_ALARM_HOUR\<close>, although that field is entered from \<open>ALARM_MENU\<close>. In every
  other field it returns to the previous field.
\<close>

theorem back_leaves_field:
  assumes "\<not> LEFT_BUTTON i" "\<not> RIGHT_BUTTON i" "\<not> SELECT_BUTTON i" "BACK_BUTTON i" "released i"
  shows "(current_mode s = SET_CLOCK_YEAR \<longrightarrow> step i s = Some (s\<lparr>current_mode := MENU\<rparr>))
     \<and> (current_mode s = SET_ALARM_HOUR \<longrightarrow> step i s = Some (s\<lparr>current_mode := MENU\<rparr>))
     \<and> (current_mode s = SET_CLOCK_MONTH \<longrightarrow> step i s = Some (s\<lparr>current_mode := SET_CLOCK_YEAR\<rparr>))
     \<and> (current_mode s = SET_CLOCK_DAY \<longrightarrow> step i s = Some (s\<lparr>current_mode := SET_CLOCK_MONTH\<rparr>))
     \<and> (current_mode s = SET_CLOCK_WEEKDAY \<longrightarrow> step i s = Some (s\<lparr>current_mode := SET_CLOCK_DAY\<rparr>))
     \<and> (current_mode s = SET_CLOCK_HOUR \<longrightarrow> step i s = Some (s\<lparr>current_mode := SET_CLOCK_WEEKDAY\<rparr>))
     \<and> (current_mode s = SET_CLOCK_MIN \<longrightarrow> step i s = Some (s\<lparr>current_mode := SET_CLOCK_HOUR\<rparr>))
     \<and> (current_mode s = SET_CLOCK_SEC \<longrightarrow> step i s = Some (s\<lparr>current_mode := SET_CLOCK_MIN\<rparr>))
     \<and> (current_mode s = SET_ALARM_MIN \<longrightarrow> step i s = Some (s\<lparr>current_mode := SET_ALARM_HOUR\<rparr>))
     \<and> (current_mode s = SET_ALARM_SEC \<longrightarrow> step i s = Some (s\<lparr>current_mode := SET_ALARM_MIN\<rparr>))"
  using assms by (simp add: step_def back_only set_mode_def mode_defs)

theorem back_leaves_field_witness:
  "\<not> LEFT_BUTTON press_back \<and> \<not> RIGHT_BUTTON press_back \<and> \<not> SELECT_BUTTON press_back
   \<and> BACK_BUTTON press_back \<and> released press_back
   \<and> current_mode (init_state\<lparr>current_mode := SET_ALARM_HOUR\<rparr>) = SET_ALARM_HOUR
   \<and> step press_back (init_state\<lparr>current_mode := SET_ALARM_HOUR\<rparr>) = Some init_state
   \<and> current_mode init_state = MENU"
  using back_leaves_field [of press_back "init_state\<lparr>current_mode := SET_ALARM_HOUR\<rparr>"]
  by (simp add: press_back_def no_press_def init_state_def mode_defs)

text \<open>
  From the initial state the presses right, right, select, right, select enter
  \<open>SET_ALARM_HOUR\<close> through \<open>ALARM_MENU\<close>; a back press then lands in \<open>MENU\<close>, not
  in \<open>ALARM_MENU\<close>.
\<close>

theorem back_in_alarm_hour_counterexample:
  "map_option current_mode
     (run [press_right, press_right, press_select, press_right, press_select] init_state)
     = Some SET_ALARM_HOUR
   \<and> map_option current_mode
     (run [press_right, press_right, press_select, press_right, press_select, press_back] init_state)
     = Some MENU
   \<and> MENU \<noteq> ALARM_MENU"
  by (simp add: step_def poll_buttons_def wait_release_def set_mode_def mode_defs
      menu_select_def alarm_menu_select_def init_state_def
      press_right_def press_select_def press_back_def no_press_def Let_def)

section \<open>A refused clock commit\<close>

lemma select_only:
  "\<not> LEFT_BUTTON i \<Longrightarrow> \<not> RIGHT_BUTTON i \<Longrightarrow> SELECT_BUTTON i \<Longrightarrow> released i \<Longrightarrow>
   poll_buttons i l r sl b s = Some (sl s)"
  by (simp add: poll_buttons_def wait_release_def)

lemma final_step:
  "current_mode s = SET_CLOCK_FINAL \<Longrightarrow>
   step j s = (if SELECT_BUTTON j then (if released j then Some (s\<lparr>current_mode := CLOCK\<rparr>) else None)
               else Some s)"
  by (simp add: step_def wait_release_def set_mode_def mode_defs)

text \<open>
  C8. When the select press that ends the clock wizard has its \<open>rtc_set_datetime\<close>
  refused, \<open>datetime_set\<close> records the failure and the mode still becomes
  \<open>SET_CLOCK_FINAL\<close>; the display loop then shows INVALID DATE (no alarm firing);
  the loop keeps running, a later iteration makes no second attempt to set the clock
  whatever the peripheral would answer, and a released select press leads to \<open>CLOCK\<close>.
\<close>

theorem rejected_commit_confirmed:
  assumes "current_mode s = SET_CLOCK_SEC"
    and "\<not> LEFT_BUTTON i" "\<not> RIGHT_BUTTON i" "SELECT_BUTTON i" "released i"
    and "\<not> rtc_set_datetime i"
  shows "step i s = Some (s\<lparr>datetime_set := False, current_mode := SET_CLOCK_FINAL\<rparr>)
     \<and> (\<not> alarm_fired s \<longrightarrow>
          display rtc (s\<lparr>datetime_set := False, current_mode := SET_CLOCK_FINAL\<rparr>)
            = Inr ([(8, 8, ''INVALID''), (24, 32, ''DATE'')],
                   s\<lparr>datetime_set := False, current_mode := SET_CLOCK_FINAL\<rparr>))
     \<and> (SELECT_BUTTON j \<and> released j \<longrightarrow>
          step j (s\<lparr>datetime_set := False, current_mode := SET_CLOCK_FINAL\<rparr>)
            = Some (s\<lparr>datetime_set := False, current_mode := CLOCK\<rparr>))
     \<and> (\<not> SELECT_BUTTON j \<longrightarrow>
          step j (s\<lparr>datetime_set := False, current_mode := SET_CLOCK_FINAL\<rparr>)
            = Some (s\<lparr>datetime_set := False, current_mode := SET_CLOCK_FINAL\<rparr>))"
proof (intro conjI impI)
  show "step i s = Some (s\<lparr>datetime_set := False, current_mode := SET_CLOCK_FINAL\<rparr>)"
    using assms by (simp add: step_def select_only clock_commit_def set_mode_def mode_defs)
next
  assume "\<not> alarm_fired s"
  then show "display rtc (s\<lparr>datetime_set := False, current_mode := SET_CLOCK_FINAL\<rparr>)
            = Inr ([(8, 8, ''INVALID''), (24, 32, ''DATE'')],
                   s\<lparr>datetime_set := False, current_mode := SET_CLOCK_FINAL\<rparr>)"
    by (simp add: display_def mode_defs)
next
  assume "SELECT_BUTTON j \<and> released j"
  then show "step j (s\<lparr>datetime_set := False, current_mode := SET_CLOCK_FINAL\<rparr>)
            = Some (s\<lparr>datetime_set := False, current_mode := CLOCK\<rparr>)"
    by (simp add: final_step)
next
  assume "\<not> SELECT_BUTTON j"
  then show "step j (s\<lparr>datetime_set := False, current_mode := SET_CLOCK_FINAL\<rparr>)
            = Some (s\<lparr>datetime_set := False, current_mode := SET_CLOCK_FINAL\<rparr>)"
    by (simp add: final_step)
qed

theorem rejected_commit_confirmed_witness:
  "current_mode (init_state\<lparr>current_mode := SET_CLOCK_SEC\<rparr>) = SET_CLOCK_SEC
   \<and> \<not> LEFT_BUTTON rejecting_select \<and> \<not> RIGHT_BUTTON rejecting_select
   \<and> SELECT_BUTTON rejecting_select \<and> released rejecting_select
   \<and> \<not> rtc_set_datetime rejecting_select
   \<and> \<not> alarm_fired (init_state\<lparr>current_mode := SET_CLOCK_SEC\<rparr>)
   \<and> SELECT_BUTTON press_select \<and> released press_select
   \<and> step rejecting_select (init_state\<lparr>current_mode := SET_CLOCK_SEC\<rparr>)
        = Some (init_state\<lparr>current_mode := SET_CLOCK_FINAL\<rparr>)
   \<and> display None (init_state\<lparr>current_mode := SET_CLOCK_FINAL\<rparr>)
        = Inr ([(8, 8, ''INVALID''), (24, 32, ''DATE'')], init_state\<lparr>current_mode := SET_CLOCK_FINAL\<rparr>)
   \<and> step press_select (init_state\<lparr>current_mode := SET_CLOCK_FINAL\<rparr>)
        = Some (init_state\<lparr>current_mode := CLOCK\<rparr>)"
  using rejected_commit_confirmed
    [of "init_state\<lparr>current_mode := SET_CLOCK_SEC\<rparr>" rejecting_select None press_select]
  by (simp add: rejecting_select_def press_select_def no_press_def init_state_def)

section \<open>Frame of the armed alarm time\<close>

lemma wait_release_Some: "wait_release i s = Some s' \<Longrightarrow> s' = s"
  by (simp add: wait_release_def split: if_splits)

lemma poll_buttons_cases:
  assumes "poll_buttons i l r sl b s = Some s'"
  shows "(LEFT_BUTTON i \<and> s' = l s)
       \<or> (\<not> LEFT_BUTTON i \<and> RIGHT_BUTTON i \<and> s' = r s)
       \<or> (\<not> LEFT_BUTTON i \<and> \<not> RIGHT_BUTTON i \<and> SELECT_BUTTON i \<and> s' = sl s)
       \<or> (\<not> LEFT_BUTTON i \<and> \<not> RIGHT_BUTTON i \<and> \<not> SELECT_BUTTON i \<and> BACK_BUTTON i \<and> s' = b s)
       \<or> (\<not> LEFT_BUTTON i \<and> \<not> RIGHT_BUTTON i \<and> \<not> SELECT_BUTTON i \<and> \<not> BACK_BUTTON i \<and> s' = s)"
  using assms by (auto simp: poll_buttons_def wait_release_def split: if_splits)

lemma step_alarmtime:
  assumes "step i s = Some s'"
  shows "alarmtime s' = alarmtime s
       \<or> (current_mode s = SET_ALARM_SEC \<and> \<not> LEFT_BUTTON i \<and> \<not> RIGHT_BUTTON i
           \<and> SELECT_BUTTON i \<and> alarmtime s' = alarm_settime s)"
proof -
  consider (clock) "current_mode s = CLOCK" | (sleep) "current_mode s = SLEEP_MODE"
    | (menu) "current_mode s = MENU" | (asec) "current_mode s = SET_ALARM_SEC"
    | (other) "current_mode s \<noteq> CLOCK" "current_mode s \<noteq> SLEEP_MODE" "current_mode s \<noteq> MENU"
        "current_mode s \<noteq> SET_ALARM_SEC"
    by blast
  then show ?thesis
  proof cases
    case clock
    then show ?thesis using assms
      by (auto simp: step_def clock_mode_def count_idle_def wait_release_def Let_def
          split: if_splits)
  next
    case sleep
    then show ?thesis using assms
      by (auto simp: step_def sleep_mode_def set_mode_def wait_release_def mode_defs
          split: if_splits)
  next
    case menu
    then show ?thesis using assms
      by (auto simp: step_def menu_select_def set_mode_def wait_release_def mode_defs Let_def
          split: if_splits option.splits)
  next
    case asec
    then have "poll_buttons i
          (\<lambda>s. s\<lparr>alarm_settime := (alarm_settime s)
                  \<lparr>sec := (if sec (alarm_settime s) = 0 then 59 else sec (alarm_settime s) - 1)\<rparr>\<rparr>)
          (\<lambda>s. s\<lparr>alarm_settime := (alarm_settime s)
                  \<lparr>sec := (if sec (alarm_settime s) = 59 then 0 else sec (alarm_settime s) + 1)\<rparr>\<rparr>)
          alarm_commit
          (set_mode SET_ALARM_MIN) s = Some s'"
      using assms by (simp add: step_def mode_defs)
    from poll_buttons_cases [OF this] asec show ?thesis
      by (auto simp: alarm_commit_def rtc_set_alarm_def set_mode_def Let_def)
  next
    case other
    then show ?thesis using assms
      by (auto simp: step_def set_mode_def month_select_def day_left_def day_right_def
          clock_commit_def alarm_menu_select_def rtc_set_alarm_def rtc_disable_alarm_def Let_def
          dest!: poll_buttons_cases wait_release_Some split: if_splits)
  qed
qed

lemma callback_alarmtime:
  "alarm_callback lag gpio now s = Some (t1, t2, s') \<Longrightarrow> alarmtime s' = alarmtime s"
  by (auto simp: alarm_callback_def Let_def split: option.splits)

lemma display_alarmtime:
  "display rtc s = Inr (f, s') \<Longrightarrow> alarmtime s' = alarmtime s"
  by (auto simp: display_def show_clock_def bind_fault_def split: if_splits option.splits sum.splits)

text \<open>
  C9. \<open>alarmtime\<close> is written only by the select press in \<open>SET_ALARM_SEC\<close>, which
  copies the draft into it: every other iteration of the control loop (the menu
  toggle, the edits of the draft, back navigation), the alarm callback and the
  display loop leave it unchanged.
\<close>

theorem alarmtime_written_only_by_commit:
  "(step i s = Some s' \<longrightarrow>
      alarmtime s' = alarmtime s
      \<or> (current_mode s = SET_ALARM_SEC \<and> \<not> LEFT_BUTTON i \<and> \<not> RIGHT_BUTTON i
          \<and> SELECT_BUTTON i \<and> alarmtime s' = alarm_settime s))
   \<and> (alarm_callback lag gpio now s = Some (t1, t2, s2) \<longrightarrow> alarmtime s2 = alarmtime s)
   \<and> (display rtc s = Inr (f, s3) \<longrightarrow> alarmtime s3 = alarmtime s)"
  using step_alarmtime [of i s s'] callback_alarmtime [of lag gpio now s t1 t2 s2]
    display_alarmtime [of rtc s f s3]
  by blast

theorem alarmtime_written_only_by_commit_witness:
  "step press_select (init_state\<lparr>current_mode := ALARM_MENU\<rparr>)
     = Some (init_state\<lparr>current_mode := DISABLE_ALARM, alarm_enabled := True,
                         rtc_alarm := Some (alarmtime init_state)\<rparr>)
   \<and> alarmtime (init_state\<lparr>current_mode := DISABLE_ALARM, alarm_enabled := True,
                            rtc_alarm := Some (alarmtime init_state)\<rparr>)
       = alarmtime (init_state\<lparr>current_mode := ALARM_MENU\<rparr>)
   \<and> alarm_callback no_lag tap 0 (init_state\<lparr>current_mode := ALARM_MENU\<rparr>)
       = Some (4288, 24288, init_state\<lparr>current_mode := ALARM_MENU\<rparr>)
   \<and> display None (init_state\<lparr>current_mode := ALARM_MENU\<rparr>)
       = Inr ([(8, 0, ''ENABLE''), (8, 20, ''SET''), (0, 0, ''-'')],
              init_state\<lparr>current_mode := ALARM_MENU\<rparr>)"
  using alarmtime_written_only_by_commit
    [of press_select "init_state\<lparr>current_mode := ALARM_MENU\<rparr>"
        "init_state\<lparr>current_mode := DISABLE_ALARM, alarm_enabled := True,
                    rtc_alarm := Some (alarmtime init_state)\<rparr>"
        no_lag tap 0 4288 24288 "init_state\<lparr>current_mode := ALARM_MENU\<rparr>"
        None "[(8, 0, ''ENABLE''), (8, 20, ''SET''), (0, 0, ''-'')]"
        "init_state\<lparr>current_mode := ALARM_MENU\<rparr>"]
  by (simp add: step_def poll_buttons_def wait_release_def alarm_menu_select_def
      rtc_set_alarm_def set_mode_def press_select_def no_press_def init_state_def mode_defs
      alarm_callback_def buzz_until_pressed_def buzz_while_pressed_def buzz_while.simps
      spin_while_pressed.simps tap_def buzz_def no_lag_def BUZZER_FREQ_def
      MAX_ALARM_TIME_SEC_def WAIT_DURATION_MS_def display_def Let_def)

section \<open>Wizard fields are cyclic\<close>

lemma run_replicate_funpow:
  assumes st: "\<And>s. P s \<Longrightarrow> step i s = Some (g s)" and inv: "\<And>s. P s \<Longrightarrow> P (g s)"
  shows "P s \<Longrightarrow> run (replicate n i) s = Some ((g ^^ n) s)"
proof (induction n arbitrary: s)
  case 0
  then show ?case by simp
next
  case (Suc n)
  have "run (replicate (Suc n) i) s = run (replicate n i) (g s)"
    using st [OF Suc.prems] by simp
  also have "\<dots> = Some ((g ^^ n) (g s))"
    using Suc.IH [OF inv [OF Suc.prems]] .
  finally show ?case by (simp add: funpow_swap1)
qed

lemma inc_wrap_closed_form:
  fixes inc :: "'a::len word \<Rightarrow> 'a word" and v :: "'a word"
  assumes hi: "hi < 2 ^ LENGTH('a)" and lohi: "lo \<le> hi"
    and inc: "\<And>w. lo \<le> unat w \<Longrightarrow> unat w \<le> hi \<Longrightarrow>
                inc w = (if w = of_nat hi then of_nat lo else w + 1)"
    and v: "lo \<le> unat v" "unat v \<le> hi"
  shows "(inc ^^ n) v = of_nat (lo + (unat v - lo + n) mod (hi - lo + 1))"
proof (induction n)
  case 0
  have "(unat v - lo) mod (hi - lo + 1) = unat v - lo" using v by simp
  then show ?case using v by simp
next
  case (Suc n)
  define r where "r = (unat v - lo + n) mod (hi - lo + 1)"
  have r: "r < hi - lo + 1" by (simp add: r_def)
  have k: "lo + r \<le> hi" using r lohi by simp
  then have klt: "lo + r < 2 ^ LENGTH('a)" using hi by simp
  have un: "unat (of_nat (lo + r) :: 'a word) = lo + r"
    by (metis klt unat_of_nat mod_less)
  have step: "inc (of_nat (lo + r)) = (if (of_nat (lo + r) :: 'a word) = of_nat hi
                                      then of_nat lo else of_nat (lo + r) + 1)"
    by (rule inc) (simp_all only: un k le_add1)
  have eq: "(of_nat (lo + r) :: 'a word) = of_nat hi \<longleftrightarrow> lo + r = hi"
    using klt hi un by (metis unat_of_nat mod_less)
  have nxt: "(unat v - lo + Suc n) mod (hi - lo + 1) = (if Suc r = hi - lo + 1 then 0 else Suc r)"
    using mod_Suc [of "unat v - lo + n" "hi - lo + 1"] by (simp add: r_def)
  have "(inc ^^ Suc n) v = inc (of_nat (lo + r))"
    using Suc.IH by (simp add: r_def)
  also have "\<dots> = of_nat (lo + (unat v - lo + Suc n) mod (hi - lo + 1))"
    unfolding step eq nxt using lohi by auto
  finally show ?case .
qed

lemma inc_wrap_cycle:
  fixes inc :: "'a::len word \<Rightarrow> 'a word" and v :: "'a word"
  assumes hi: "hi < 2 ^ LENGTH('a)" and lohi: "lo \<le> hi"
    and inc: "\<And>w. lo \<le> unat w \<Longrightarrow> unat w \<le> hi \<Longrightarrow>
                inc w = (if w = of_nat hi then of_nat lo else w + 1)"
    and v: "lo \<le> unat v" "unat v \<le> hi"
  shows "(inc ^^ (hi - lo + 1)) v = v"
proof -
  have "unat v - lo < hi - lo + 1" using v by arith
  then have "(unat v - lo + (hi - lo + 1)) mod (hi - lo + 1) = unat v - lo"
    by (simp only: mod_add_self2 mod_less)
  then show ?thesis
    using inc_wrap_closed_form [OF hi lohi inc v, of "hi - lo + 1"] v by simp
qed

lemma sint_nonneg_uint:
  fixes w :: "'a::len word"
  assumes "0 \<le> sint w"
  shows "sint w = uint w"
proof -
  have "\<not> bit w (LENGTH('a) - Suc 0)"
    using assms by (simp add: bit_last_iff)
  then have "\<not> bit (uint w) (LENGTH('a) - Suc 0)"
    by (simp add: bit_uint_iff)
  then have "sint w = take_bit (Suc (LENGTH('a) - Suc 0)) (uint w)"
    by (simp add: sint_uint signed_take_bit_eq_take_bit_minus)
  also have "\<dots> = uint w"
    by (simp add: take_bit_int_eq_self_iff uint_lt2p)
  finally show ?thesis .
qed

lemma sint_small_uint:
  fixes w :: "'a::len word"
  assumes "uint w < 2 ^ (LENGTH('a) - Suc 0)"
  shows "sint w = uint w"
proof -
  have "- (2 ^ (LENGTH('a) - Suc 0)) \<le> (0::int)" by simp
  also have "0 \<le> uint w" by simp
  finally show ?thesis
    using assms by (simp add: sint_uint signed_take_bit_int_eq_self)
qed


lemma sint_range_unat:
  fixes w :: "'a::len word"
  assumes "int lo \<le> sint w" "sint w \<le> int hi"
  shows "lo \<le> unat w \<and> unat w \<le> hi"
proof -
  have "0 \<le> sint w" using assms(1) by simp
  then have "sint w = int (unat w)" by (simp only: sint_nonneg_uint uint_nat)
  then show ?thesis using assms by (simp only: of_nat_le_iff)
qed

lemma right_poll: "is_right i \<Longrightarrow> poll_buttons i l r sl b s = Some (r s)"
  by (simp add: is_right_def poll_buttons_def wait_release_def)

lemma field_run:
  assumes st: "\<And>s. P s \<Longrightarrow> step i s = Some (put (inc (get s)) s)"
    and inv: "\<And>s v. P s \<Longrightarrow> P (put v s)"
    and get_put: "\<And>s v. get (put v s) = v"
    and put_put: "\<And>s v w. put v (put w s) = put v s"
    and put_get: "\<And>s. put (get s) s = s"
    and P: "P s"
  shows "run (replicate n i) s = Some (put ((inc ^^ n) (get s)) s)"
proof -
  have pw: "((\<lambda>s. put (inc (get s)) s) ^^ k) s = put ((inc ^^ k) (get s)) s" for k
    by (induction k) (simp_all add: put_get get_put put_put)
  have "run (replicate n i) s = Some (((\<lambda>s. put (inc (get s)) s) ^^ n) s)"
    by (rule run_replicate_funpow [where P = P]) (simp_all add: st inv P)
  then show ?thesis by (simp add: pw)
qed

lemma field_cycle:
  assumes st: "\<And>s. P s \<Longrightarrow> step i s = Some (put (inc (get s)) s)"
    and inv: "\<And>s v. P s \<Longrightarrow> P (put v s)"
    and get_put: "\<And>s v. get (put v s) = v"
    and put_put: "\<And>s v w. put v (put w s) = put v s"
    and put_get: "\<And>s. put (get s) s = s"
    and cyc: "(inc ^^ n) (get s) = get s" and P: "P s"
  shows "run (replicate n i) s = Some s"
  using field_run [where P = P and put = put and inc = inc and get = get and n = n,
      OF st inv get_put put_put put_get P]
  by (simp add: cyc put_get)

lemma number_of_days_bounds: "28 \<le> unat (number_of_days y m) \<and> unat (number_of_days y m) \<le> 31"
  by (simp add: number_of_days_def)

lemma year_cycle:
  assumes "is_right i" "current_mode s = SET_CLOCK_YEAR" "year_ok (set_date s)"
  shows "run (replicate 4096 i) s = Some s"
proof -
  have r: "0 \<le> unat (year (set_date s)) \<and> unat (year (set_date s)) \<le> 4095"
    using assms(3) sint_range_unat [of 0 "year (set_date s)" 4095] by (simp add: year_ok_def)
  have "((\<lambda>w. if w = 4095 then 0 else w + 1) ^^ (4095 - 0 + 1)) (year (set_date s))
          = year (set_date s)"
    using r by (intro inc_wrap_cycle) simp_all
  then have c: "((\<lambda>w. if w = 4095 then 0 else w + 1) ^^ 4096) (year (set_date s))
          = year (set_date s)" by simp
  show ?thesis
    by (rule field_cycle [where P = "\<lambda>s. current_mode s = SET_CLOCK_YEAR"
          and get = "\<lambda>s. year (set_date s)"
          and put = "\<lambda>v s. s\<lparr>set_date := (set_date s)\<lparr>year := v\<rparr>\<rparr>"
          and inc = "\<lambda>w. if w = 4095 then 0 else w + 1", OF _ _ _ _ _ c])
       (simp_all add: assms step_def right_poll mode_defs)
qed


lemma month_cycle:
  assumes "is_right i" "current_mode s = SET_CLOCK_MONTH" "month_ok (set_date s)"
  shows "run (replicate 12 i) s = Some s"
proof -
  have r: "1 \<le> unat (month (set_date s)) \<and> unat (month (set_date s)) \<le> 12"
    using assms(3) sint_range_unat [of 1 "month (set_date s)" 12] by (simp add: month_ok_def)
  have "((\<lambda>w. if w = 12 then 1 else w + 1) ^^ (12 - 1 + 1)) (month (set_date s))
          = month (set_date s)"
    using r by (intro inc_wrap_cycle) simp_all
  then have c: "((\<lambda>w. if w = 12 then 1 else w + 1) ^^ 12) (month (set_date s))
          = month (set_date s)" by simp
  show ?thesis
    by (rule field_cycle [where P = "\<lambda>s. current_mode s = SET_CLOCK_MONTH"
          and get = "\<lambda>s. month (set_date s)"
          and put = "\<lambda>v s. s\<lparr>set_date := (set_date s)\<lparr>month := v\<rparr>\<rparr>"
          and inc = "\<lambda>w. if w = 12 then 1 else w + 1", OF _ _ _ _ _ c])
       (simp_all add: assms step_def right_poll mode_defs)
qed

lemma dotw_cycle:
  assumes "is_right i" "current_mode s = SET_CLOCK_WEEKDAY" "dotw_ok (set_date s)"
  shows "run (replicate 7 i) s = Some s"
proof -
  have r: "0 \<le> unat (dotw (set_date s)) \<and> unat (dotw (set_date s)) \<le> 6"
    using assms(3) sint_range_unat [of 0 "dotw (set_date s)" 6] by (simp add: dotw_ok_def)
  have "((\<lambda>w. if w = 6 then 0 else w + 1) ^^ (6 - 0 + 1)) (dotw (set_date s))
          = dotw (set_date s)"
    using r by (intro inc_wrap_cycle) simp_all
  then have c: "((\<lambda>w. if w = 6 then 0 else w + 1) ^^ 7) (dotw (set_date s))
          = dotw (set_date s)" by simp
  show ?thesis
    by (rule field_cycle [where P = "\<lambda>s. current_mode s = SET_CLOCK_WEEKDAY"
          and get = "\<lambda>s. dotw (set_date s)"
          and put = "\<lambda>v s. s\<lparr>set_date := (set_date s)\<lparr>dotw := v\<rparr>\<rparr>"
          and inc = "\<lambda>w. if w = 6 then 0 else w + 1", OF _ _ _ _ _ c])
       (simp_all add: assms step_def right_poll mode_defs)
qed

lemma hour_cycle:
  assumes "is_right i" "current_mode s = SET_CLOCK_HOUR" "hour_ok (set_date s)"
  shows "run (replicate 24 i) s = Some s"
proof -
  have r: "0 \<le> unat (hour (set_date s)) \<and> unat (hour (set_date s)) \<le> 23"
    using assms(3) sint_range_unat [of 0 "hour (set_date s)" 23] by (simp add: hour_ok_def)
  have "((\<lambda>w. if w = 23 then 0 else w + 1) ^^ (23 - 0 + 1)) (hour (set_date s))
          = hour (set_date s)"
    using r by (intro inc_wrap_cycle) simp_all
  then have c: "((\<lambda>w. if w = 23 then 0 else w + 1) ^^ 24) (hour (set_date s))
          = hour (set_date s)" by simp
  show ?thesis
    by (rule field_cycle [where P = "\<lambda>s. current_mode s = SET_CLOCK_HOUR"
          and get = "\<lambda>s. hour (set_date s)"
          and put = "\<lambda>v s. s\<lparr>set_date := (set_date s)\<lparr>hour := v\<rparr>\<rparr>"
          and inc = "\<lambda>w. if w = 23 then 0 else w + 1", OF _ _ _ _ _ c])
       (simp_all add: assms step_def right_poll mode_defs)
qed

lemma min_cycle:
  assumes "is_right i" "current_mode s = SET_CLOCK_MIN" "min_ok (set_date s)"
  shows "run (replicate 60 i) s = Some s"
proof -
  have r: "0 \<le> unat (min' (set_date s)) \<and> unat (min' (set_date s)) \<le> 59"
    using assms(3) sint_range_unat [of 0 "min' (set_date s)" 59] by (simp add: min_ok_def)
  have "((\<lambda>w. if w = 59 then 0 else w + 1) ^^ (59 - 0 + 1)) (min' (set_date s))
          = min' (set_date s)"
    using r by (intro inc_wrap_cycle) simp_all
  then have c: "((\<lambda>w. if w = 59 then 0 else w + 1) ^^ 60) (min' (set_date s))
          = min' (set_date s)" by simp
  show ?thesis
    by (rule field_cycle [where P = "\<lambda>s. current_mode s = SET_CLOCK_MIN"
          and get = "\<lambda>s. min' (set_date s)"
          and put = "\<lambda>v s. s\<lparr>set_date := (set_date s)\<lparr>min' := v\<rparr>\<rparr>"
          and inc = "\<lambda>w. if w = 59 then 0 else w + 1", OF _ _ _ _ _ c])
       (simp_all add: assms step_def right_poll mode_defs)
qed

lemma sec_cycle:
  assumes "is_right i" "current_mode s = SET_CLOCK_SEC" "sec_ok (set_date s)"
  shows "run (replicate 60 i) s = Some s"
proof -
  have r: "0 \<le> unat (sec (set_date s)) \<and> unat (sec (set_date s)) \<le> 59"
    using assms(3) sint_range_unat [of 0 "sec (set_date s)" 59] by (simp add: sec_ok_def)
  have "((\<lambda>w. if w = 59 then 0 else w + 1) ^^ (59 - 0 + 1)) (sec (set_date s))
          = sec (set_date s)"
    using r by (intro inc_wrap_cycle) simp_all
  then have c: "((\<lambda>w. if w = 59 then 0 else w + 1) ^^ 60) (sec (set_date s))
          = sec (set_date s)" by simp
  show ?thesis
    by (rule field_cycle [where P = "\<lambda>s. current_mode s = SET_CLOCK_SEC"
          and get = "\<lambda>s. sec (set_date s)"
          and put = "\<lambda>v s. s\<lparr>set_date := (set_date s)\<lparr>sec := v\<rparr>\<rparr>"
          and inc = "\<lambda>w. if w = 59 then 0 else w + 1", OF _ _ _ _ _ c])
       (simp_all add: assms step_def right_poll mode_defs)
qed

lemma alarm_hour_cycle:
  assumes "is_right i" "current_mode s = SET_ALARM_HOUR" "hour_ok (alarm_settime s)"
  shows "run (replicate 24 i) s = Some s"
proof -
  have r: "0 \<le> unat (hour (alarm_settime s)) \<and> unat (hour (alarm_settime s)) \<le> 23"
    using assms(3) sint_range_unat [of 0 "hour (alarm_settime s)" 23] by (simp add: hour_ok_def)
  have "((\<lambda>w. if w = 23 then 0 else w + 1) ^^ (23 - 0 + 1)) (hour (alarm_settime s))
          = hour (alarm_settime s)"
    using r by (intro inc_wrap_cycle) simp_all
  then have c: "((\<lambda>w. if w = 23 then 0 else w + 1) ^^ 24) (hour (alarm_settime s))
          = hour (alarm_settime s)" by simp
  show ?thesis
    by (rule field_cycle [where P = "\<lambda>s. current_mode s = SET_ALARM_HOUR"
          and get = "\<lambda>s. hour (alarm_settime s)"
          and put = "\<lambda>v s. s\<lparr>alarm_settime := (alarm_settime s)\<lparr>hour := v\<rparr>\<rparr>"
          and inc = "\<lambda>w. if w = 23 then 0 else w + 1", OF _ _ _ _ _ c])
       (simp_all add: assms step_def right_poll mode_defs)
qed

lemma alarm_min_cycle:
  assumes "is_right i" "current_mode s = SET_ALARM_MIN" "min_ok (alarm_settime s)"
  shows "run (replicate 60 i) s = Some s"
proof -
  have r: "0 \<le> unat (min' (alarm_settime s)) \<and> unat (min' (alarm_settime s)) \<le> 59"
    using assms(3) sint_range_unat [of 0 "min' (alarm_settime s)" 59] by (simp add: min_ok_def)
  have "((\<lambda>w. if w = 59 then 0 else w + 1) ^^ (59 - 0 + 1)) (min' (alarm_settime s))
          = min' (alarm_settime s)"
    using r by (intro inc_wrap_cycle) simp_all
  then have c: "((\<lambda>w. if w = 59 then 0 else w + 1) ^^ 60) (min' (alarm_settime s))
          = min' (alarm_settime s)" by simp
  show ?thesis
    by (rule field_cycle [where P = "\<lambda>s. current_mode s = SET_ALARM_MIN"
          and get = "\<lambda>s. min' (alarm_settime s)"
          and put = "\<lambda>v s. s\<lparr>alarm_settime := (alarm_settime s)\<lparr>min' := v\<rparr>\<rparr>"
          and inc = "\<lambda>w. if w = 59 then 0 else w + 1", OF _ _ _ _ _ c])
       (simp_all add: assms step_def right_poll mode_defs)
qed

lemma alarm_sec_cycle:
  assumes "is_right i" "current_mode s = SET_ALARM_SEC" "sec_ok (alarm_settime s)"
  shows "run (replicate 60 i) s = Some s"
proof -
  have r: "0 \<le> unat (sec (alarm_settime s)) \<and> unat (sec (alarm_settime s)) \<le> 59"
    using assms(3) sint_range_unat [of 0 "sec (alarm_settime s)" 59] by (simp add: sec_ok_def)
  have "((\<lambda>w. if w = 59 then 0 else w + 1) ^^ (59 - 0 + 1)) (sec (alarm_settime s))
          = sec (alarm_settime s)"
    using r by (intro inc_wrap_cycle) simp_all
  then have c: "((\<lambda>w. if w = 59 then 0 else w + 1) ^^ 60) (sec (alarm_settime s))
          = sec (alarm_settime s)" by simp
  show ?thesis
    by (rule field_cycle [where P = "\<lambda>s. current_mode s = SET_ALARM_SEC"
          and get = "\<lambda>s. sec (alarm_settime s)"
          and put = "\<lambda>v s. s\<lparr>alarm_settime := (alarm_settime s)\<lparr>sec := v\<rparr>\<rparr>"
          and inc = "\<lambda>w. if w = 59 then 0 else w + 1", OF _ _ _ _ _ c])
       (simp_all add: assms step_def right_poll mode_defs)
qed

lemma day_cycle:
  assumes "is_right i" "current_mode s = SET_CLOCK_DAY" "day_ok (set_date s)"
  shows "run (replicate (unat (number_of_days (year (set_date s)) (month (set_date s)))) i) s
           = Some s"
proof -
  define dn where "dn = number_of_days (year (set_date s)) (month (set_date s))"
  have dn: "28 \<le> unat dn" "unat dn \<le> 31"
    using number_of_days_bounds [of "year (set_date s)" "month (set_date s)"]
    by (simp_all add: dn_def)
  have r: "1 \<le> unat (day (set_date s)) \<and> unat (day (set_date s)) \<le> unat dn"
    using assms(3) sint_range_unat [of 1 "day (set_date s)" "unat dn"]
    by (simp add: day_ok_def dn_def)
  have inc: "(if sint w = uint dn then 1 else w + 1)
               = (if w = of_nat (unat dn) then of_nat 1 else w + 1)"
    if "1 \<le> unat w" "unat w \<le> unat dn" for w :: "8 word"
  proof -
    have "unat w < 128" using that dn by simp
    moreover have "uint w = int (unat w)" by (rule uint_nat)
    ultimately have "uint w < 128" by linarith
    then have "uint w < 2 ^ (LENGTH(8) - Suc 0)" by simp
    then have "sint w = uint w" by (rule sint_small_uint)
    then show ?thesis by (simp add: word_uint_eq_iff)
  qed
  have "((\<lambda>w. if sint w = uint dn then 1 else w + 1) ^^ (unat dn - 1 + 1)) (day (set_date s))
          = day (set_date s)"
    using r dn inc by (intro inc_wrap_cycle) simp_all
  then have c: "((\<lambda>w. if sint w = uint dn then 1 else w + 1) ^^ unat dn) (day (set_date s))
          = day (set_date s)" using dn by simp
  have st: "step i s' = Some (s'\<lparr>set_date := (set_date s')
               \<lparr>day := (if sint (day (set_date s')) = uint dn then 1 else day (set_date s') + 1)\<rparr>\<rparr>)"
    if "current_mode s' = SET_CLOCK_DAY
        \<and> number_of_days (year (set_date s')) (month (set_date s')) = dn" for s'
    using that assms(1) by (simp add: step_def right_poll mode_defs day_right_def Let_def)
  have P: "current_mode s = SET_CLOCK_DAY
        \<and> number_of_days (year (set_date s)) (month (set_date s)) = dn"
    using assms(2) by (simp add: dn_def)
  have "run (replicate (unat dn) i) s = Some s"
    by (rule field_cycle [where P = "\<lambda>s'. current_mode s' = SET_CLOCK_DAY
                \<and> number_of_days (year (set_date s')) (month (set_date s')) = dn"
          and get = "\<lambda>s. day (set_date s)"
          and put = "\<lambda>v s. s\<lparr>set_date := (set_date s)\<lparr>day := v\<rparr>\<rparr>"
          and inc = "\<lambda>w. if sint w = uint dn then 1 else w + 1", OF st _ _ _ _ c P])
       simp_all
  then show ?thesis by (simp only: dn_def)
qed


lemma alarm_min_rights:
  assumes "is_right i" "current_mode s = SET_ALARM_MIN" "min_ok (alarm_settime s)"
  shows "run (replicate n i) s
           = Some (s\<lparr>alarm_settime := (alarm_settime s)
                      \<lparr>min' := of_nat ((unat (min' (alarm_settime s)) + n) mod 60)\<rparr>\<rparr>)"
proof -
  have r: "0 \<le> unat (min' (alarm_settime s)) \<and> unat (min' (alarm_settime s)) \<le> 59"
    using assms(3) sint_range_unat [of 0 "min' (alarm_settime s)" 59] by (simp add: min_ok_def)
  have "((\<lambda>w. if w = 59 then 0 else w + 1) ^^ n) (min' (alarm_settime s))
          = of_nat (0 + (unat (min' (alarm_settime s)) - 0 + n) mod (59 - 0 + 1))"
    using r by (intro inc_wrap_closed_form) simp_all
  then have c: "((\<lambda>w. if w = 59 then 0 else w + 1) ^^ n) (min' (alarm_settime s))
          = of_nat ((unat (min' (alarm_settime s)) + n) mod 60)" by simp
  have "run (replicate n i) s
          = Some (s\<lparr>alarm_settime := (alarm_settime s)
                \<lparr>min' := ((\<lambda>w. if w = 59 then 0 else w + 1) ^^ n) (min' (alarm_settime s))\<rparr>\<rparr>)"
    by (rule field_run [where P = "\<lambda>s. current_mode s = SET_ALARM_MIN"
          and get = "\<lambda>s. min' (alarm_settime s)"
          and put = "\<lambda>v s. s\<lparr>alarm_settime := (alarm_settime s)\<lparr>min' := v\<rparr>\<rparr>"
          and inc = "\<lambda>w. if w = 59 then 0 else w + 1"])
       (simp_all add: assms step_def right_poll mode_defs)
  then show ?thesis by (simp only: c)
qed

text \<open>
  C6. In every field of the two wizards, the right press repeated as many times as the
  field has values brings an in-range field, and the whole state, back to where it
  started: 4096 presses for the year, 12 for the month, \<open>number_of_days\<close> of the
  draft's year and month for the day, 7 for the weekday, 24 for the hour, 60 for
  minute and second.
\<close>

theorem right_presses_cycle:
  assumes "is_right i"
  shows "(current_mode s = SET_CLOCK_YEAR \<and> year_ok (set_date s) \<longrightarrow>
            run (replicate 4096 i) s = Some s)
     \<and> (current_mode s = SET_CLOCK_MONTH \<and> month_ok (set_date s) \<longrightarrow>
            run (replicate 12 i) s = Some s)
     \<and> (current_mode s = SET_CLOCK_DAY \<and> day_ok (set_date s) \<longrightarrow>
            run (replicate (unat (number_of_days (year (set_date s)) (month (set_date s)))) i) s
              = Some s)
     \<and> (current_mode s = SET_CLOCK_WEEKDAY \<and> dotw_ok (set_date s) \<longrightarrow>
            run (replicate 7 i) s = Some s)
     \<and> (current_mode s = SET_CLOCK_HOUR \<and> hour_ok (set_date s) \<longrightarrow>
            run (replicate 24 i) s = Some s)
     \<and> (current_mode s = SET_CLOCK_MIN \<and> min_ok (set_date s) \<longrightarrow>
            run (replicate 60 i) s = Some s)
     \<and> (current_mode s = SET_CLOCK_SEC \<and> sec_ok (set_date s) \<longrightarrow>
            run (replicate 60 i) s = Some s)
     \<and> (current_mode s = SET_ALARM_HOUR \<and> hour_ok (alarm_settime s) \<longrightarrow>
            run (replicate 24 i) s = Some s)
     \<and> (current_mode s = SET_ALARM_MIN \<and> min_ok (alarm_settime s) \<longrightarrow>
            run (replicate 60 i) s = Some s)
     \<and> (current_mode s = SET_ALARM_SEC \<and> sec_ok (alarm_settime s) \<longrightarrow>
            run (replicate 60 i) s = Some s)"
  using assms year_cycle [of i s] month_cycle [of i s] day_cycle [of i s] dotw_cycle [of i s]
    hour_cycle [of i s] min_cycle [of i s] sec_cycle [of i s] alarm_hour_cycle [of i s]
    alarm_min_cycle [of i s] alarm_sec_cycle [of i s]
  by blast

theorem right_presses_cycle_witness:
  "is_right press_right
   \<and> current_mode (leap_day\<lparr>current_mode := SET_CLOCK_YEAR\<rparr>) = SET_CLOCK_YEAR
   \<and> year_ok (set_date (leap_day\<lparr>current_mode := SET_CLOCK_YEAR\<rparr>))
   \<and> run (replicate 4096 press_right) (leap_day\<lparr>current_mode := SET_CLOCK_YEAR\<rparr>)
        = Some (leap_day\<lparr>current_mode := SET_CLOCK_YEAR\<rparr>)
   \<and> current_mode leap_day = SET_CLOCK_DAY \<and> day_ok (set_date leap_day)
   \<and> number_of_days (year (set_date leap_day)) (month (set_date leap_day)) = 29
   \<and> run (replicate 29 press_right) leap_day = Some leap_day
   \<and> current_mode (leap_day\<lparr>current_mode := SET_ALARM_SEC\<rparr>) = SET_ALARM_SEC
   \<and> sec_ok (alarm_settime (leap_day\<lparr>current_mode := SET_ALARM_SEC\<rparr>))
   \<and> run (replicate 60 press_right) (leap_day\<lparr>current_mode := SET_ALARM_SEC\<rparr>)
        = Some (leap_day\<lparr>current_mode := SET_ALARM_SEC\<rparr>)"
proof -
  have r: "is_right press_right"
    by (simp add: is_right_def press_right_def no_press_def)
  have n: "number_of_days (year (set_date leap_day)) (month (set_date leap_day)) = 29"
    by (simp add: leap_day_def number_of_days_def)
  have ok: "year_ok (set_date (leap_day\<lparr>current_mode := SET_CLOCK_YEAR\<rparr>))"
    "day_ok (set_date leap_day)"
    "sec_ok (alarm_settime (leap_day\<lparr>current_mode := SET_ALARM_SEC\<rparr>))"
    by (simp_all add: year_ok_def day_ok_def sec_ok_def leap_day_def init_state_def
        zero_datetime_def number_of_days_def)
  have m: "current_mode leap_day = SET_CLOCK_DAY" by (simp add: leap_day_def)
  show ?thesis
    using right_presses_cycle [OF r, of "leap_day\<lparr>current_mode := SET_CLOCK_YEAR\<rparr>"]
      right_presses_cycle [OF r, of leap_day]
      right_presses_cycle [OF r, of "leap_day\<lparr>current_mode := SET_ALARM_SEC\<rparr>"]
      r n ok m
    by simp
qed

section \<open>Setting the alarm\<close>

lemma edit_poll:
  "is_edit i \<Longrightarrow> poll_buttons i l r sl b s = Some (if LEFT_BUTTON i then l s else r s)"
  by (auto simp: is_edit_def poll_buttons_def wait_release_def)

lemma edit_alarm_hour_step:
  assumes "current_mode s = SET_ALARM_HOUR" "is_edit i"
  shows "\<exists>h. step i s = Some (s\<lparr>alarm_settime := (alarm_settime s)\<lparr>hour := h\<rparr>\<rparr>)"
proof -
  have "step i s = Some (s\<lparr>alarm_settime := (alarm_settime s)\<lparr>hour :=
          (if LEFT_BUTTON i
           then (if hour (alarm_settime s) = 0 then 23 else hour (alarm_settime s) - 1)
           else (if hour (alarm_settime s) = 23 then 0 else hour (alarm_settime s) + 1))\<rparr>\<rparr>)"
    using assms by (simp add: step_def edit_poll mode_defs)
  then show ?thesis by blast
qed

lemma edit_alarm_min_step:
  assumes "current_mode s = SET_ALARM_MIN" "is_edit i"
  shows "\<exists>m. step i s = Some (s\<lparr>alarm_settime := (alarm_settime s)\<lparr>min' := m\<rparr>\<rparr>)"
proof -
  have "step i s = Some (s\<lparr>alarm_settime := (alarm_settime s)\<lparr>min' :=
          (if LEFT_BUTTON i
           then (if min' (alarm_settime s) = 0 then 59 else min' (alarm_settime s) - 1)
           else (if min' (alarm_settime s) = 59 then 0 else min' (alarm_settime s) + 1))\<rparr>\<rparr>)"
    using assms by (simp add: step_def edit_poll mode_defs)
  then show ?thesis by blast
qed

lemma edit_alarm_sec_step:
  assumes "current_mode s = SET_ALARM_SEC" "is_edit i"
  shows "\<exists>c. step i s = Some (s\<lparr>alarm_settime := (alarm_settime s)\<lparr>sec := c\<rparr>\<rparr>)"
proof -
  have "step i s = Some (s\<lparr>alarm_settime := (alarm_settime s)\<lparr>sec :=
          (if LEFT_BUTTON i
           then (if sec (alarm_settime s) = 0 then 59 else sec (alarm_settime s) - 1)
           else (if sec (alarm_settime s) = 59 then 0 else sec (alarm_settime s) + 1))\<rparr>\<rparr>)"
    using assms by (simp add: step_def edit_poll mode_defs)
  then show ?thesis by blast
qed

lemma edit_alarm_hour_run:
  "current_mode s = SET_ALARM_HOUR \<Longrightarrow> \<forall>i \<in> set es. is_edit i \<Longrightarrow>
   \<exists>h. run es s = Some (s\<lparr>alarm_settime := (alarm_settime s)\<lparr>hour := h\<rparr>\<rparr>)"
proof (induction es arbitrary: s)
  case Nil
  have "s = s\<lparr>alarm_settime := (alarm_settime s)\<lparr>hour := hour (alarm_settime s)\<rparr>\<rparr>" by simp
  then show ?case by (metis run.simps(1))
next
  case (Cons i es)
  then obtain h where st: "step i s = Some (s\<lparr>alarm_settime := (alarm_settime s)\<lparr>hour := h\<rparr>\<rparr>)"
    using edit_alarm_hour_step [of s i] by auto
  show ?case
    using Cons.IH [of "s\<lparr>alarm_settime := (alarm_settime s)\<lparr>hour := h\<rparr>\<rparr>"] Cons.prems st
    by auto
qed

lemma edit_alarm_min_run:
  "current_mode s = SET_ALARM_MIN \<Longrightarrow> \<forall>i \<in> set es. is_edit i \<Longrightarrow>
   \<exists>m. run es s = Some (s\<lparr>alarm_settime := (alarm_settime s)\<lparr>min' := m\<rparr>\<rparr>)"
proof (induction es arbitrary: s)
  case Nil
  have "s = s\<lparr>alarm_settime := (alarm_settime s)\<lparr>min' := min' (alarm_settime s)\<rparr>\<rparr>" by simp
  then show ?case by (metis run.simps(1))
next
  case (Cons i es)
  then obtain m where st: "step i s = Some (s\<lparr>alarm_settime := (alarm_settime s)\<lparr>min' := m\<rparr>\<rparr>)"
    using edit_alarm_min_step [of s i] by auto
  show ?case
    using Cons.IH [of "s\<lparr>alarm_settime := (alarm_settime s)\<lparr>min' := m\<rparr>\<rparr>"] Cons.prems st
    by auto
qed

lemma edit_alarm_sec_run:
  "current_mode s = SET_ALARM_SEC \<Longrightarrow> \<forall>i \<in> set es. is_edit i \<Longrightarrow>
   \<exists>c. run es s = Some (s\<lparr>alarm_settime := (alarm_settime s)\<lparr>sec := c\<rparr>\<rparr>)"
proof (induction es arbitrary: s)
  case Nil
  have "s = s\<lparr>alarm_settime := (alarm_settime s)\<lparr>sec := sec (alarm_settime s)\<rparr>\<rparr>" by simp
  then show ?case by (metis run.simps(1))
next
  case (Cons i es)
  then obtain c where st: "step i s = Some (s\<lparr>alarm_settime := (alarm_settime s)\<lparr>sec := c\<rparr>\<rparr>)"
    using edit_alarm_sec_step [of s i] by auto
  show ?case
    using Cons.IH [of "s\<lparr>alarm_settime := (alarm_settime s)\<lparr>sec := c\<rparr>\<rparr>"] Cons.prems st
    by auto
qed

lemma run_seq: "run xs s = Some s' \<Longrightarrow> run (xs @ ys) s = run ys s'"
  by (simp add: run_append)

lemma select_poll:
  "poll_buttons press_select l r sl b s = Some (sl s)"
  by (simp add: poll_buttons_def wait_release_def press_select_def no_press_def)

lemma select_alarm_menu:
  "current_mode s = ALARM_MENU \<Longrightarrow> step press_select s = Some (alarm_menu_select s)"
  by (simp add: step_def select_poll mode_defs)

lemma select_alarm_hour:
  "current_mode s = SET_ALARM_HOUR \<Longrightarrow> step press_select s = Some (set_mode SET_ALARM_MIN s)"
  by (simp add: step_def select_poll mode_defs)

lemma select_alarm_min:
  "current_mode s = SET_ALARM_MIN \<Longrightarrow> step press_select s = Some (set_mode SET_ALARM_SEC s)"
  by (simp add: step_def select_poll mode_defs)

lemma select_alarm_sec:
  "current_mode s = SET_ALARM_SEC \<Longrightarrow> step press_select s = Some (alarm_commit s)"
  by (simp add: step_def select_poll mode_defs)

text \<open>
  C3. From \<open>ALARM_MENU\<close> with the cursor on 1: select, edits (left or right presses)
  that leave the draft hour at 7, select, edits that leave the minute at 30, select,
  edits that leave the second at 0, select. The run ends with \<open>alarmtime\<close> at
  07:30:00, \<open>alarm_enabled\<close> true, the peripheral armed with that time, and the mode
  \<open>SET_ALARM_FINAL\<close>.
\<close>

theorem alarm_wizard_scenario:
  assumes start: "current_mode s = ALARM_MENU" "menu_index s = 1"
    and edits: "\<forall>i \<in> set eh \<union> set em \<union> set es. is_edit i"
    and h: "run (press_select # eh) s = Some s1" "hour (alarm_settime s1) = 7"
    and m: "run (press_select # em) s1 = Some s2" "min' (alarm_settime s2) = 30"
    and c: "run (press_select # es) s2 = Some s3" "sec (alarm_settime s3) = 0"
  shows "\<exists>s4. run (press_select # eh @ press_select # em @ press_select # es @ [press_select]) s
                = Some s4
          \<and> alarmtime s4 = (alarmtime s)\<lparr>hour := 7, min' := 30, sec := 0\<rparr>
          \<and> alarm_enabled s4 \<and> rtc_alarm s4 = Some (alarmtime s4)
          \<and> current_mode s4 = SET_ALARM_FINAL"
proof -
  define a where "a = (set_mode SET_ALARM_HOUR s)\<lparr>alarm_settime := alarmtime s, menu_index := 0\<rparr>"
  have a: "step press_select s = Some a"
    using start by (simp add: select_alarm_menu alarm_menu_select_def a_def)
  have am: "current_mode a = SET_ALARM_HOUR" by (simp add: a_def set_mode_def)
  obtain hv where "run eh a = Some (a\<lparr>alarm_settime := (alarm_settime a)\<lparr>hour := hv\<rparr>\<rparr>)"
    using edit_alarm_hour_run [OF am, of eh] edits by auto
  with h a have s1: "s1 = a\<lparr>alarm_settime := (alarm_settime a)\<lparr>hour := 7\<rparr>\<rparr>"
    by auto
  define b where "b = set_mode SET_ALARM_MIN s1"
  have b: "step press_select s1 = Some b"
    using am by (simp add: select_alarm_hour s1 b_def)
  have bm: "current_mode b = SET_ALARM_MIN" by (simp add: b_def set_mode_def)
  obtain mv where "run em b = Some (b\<lparr>alarm_settime := (alarm_settime b)\<lparr>min' := mv\<rparr>\<rparr>)"
    using edit_alarm_min_run [OF bm, of em] edits by auto
  with m b have s2: "s2 = b\<lparr>alarm_settime := (alarm_settime b)\<lparr>min' := 30\<rparr>\<rparr>"
    by auto
  define c' where "c' = set_mode SET_ALARM_SEC s2"
  have c': "step press_select s2 = Some c'"
    using bm by (simp add: select_alarm_min s2 c'_def)
  have cm: "current_mode c' = SET_ALARM_SEC" by (simp add: c'_def set_mode_def)
  obtain cv where "run es c' = Some (c'\<lparr>alarm_settime := (alarm_settime c')\<lparr>sec := cv\<rparr>\<rparr>)"
    using edit_alarm_sec_run [OF cm, of es] edits by auto
  with c c' have s3: "s3 = c'\<lparr>alarm_settime := (alarm_settime c')\<lparr>sec := 0\<rparr>\<rparr>"
    by auto
  have s3m: "current_mode s3 = SET_ALARM_SEC" by (simp add: s3 cm)
  have fin: "step press_select s3 = Some (alarm_commit s3)"
    using s3m by (rule select_alarm_sec)
  have "run (press_select # eh @ press_select # em @ press_select # es @ [press_select]) s
          = Some (alarm_commit s3)"
    using run_seq [OF h(1), of "press_select # em @ press_select # es @ [press_select]"]
      run_seq [OF m(1), of "press_select # es @ [press_select]"]
      run_seq [OF c(1), of "[press_select]"] fin
    by simp
  moreover have "alarmtime (alarm_commit s3) = (alarmtime s)\<lparr>hour := 7, min' := 30, sec := 0\<rparr>"
    by (simp add: alarm_commit_def rtc_set_alarm_def set_mode_def Let_def s3 c'_def s2 b_def s1 a_def)
  moreover have "alarm_enabled (alarm_commit s3)"
    "rtc_alarm (alarm_commit s3) = Some (alarmtime (alarm_commit s3))"
    "current_mode (alarm_commit s3) = SET_ALARM_FINAL"
    by (simp_all add: alarm_commit_def rtc_set_alarm_def set_mode_def Let_def)
  ultimately show ?thesis by blast
qed


lemma scenario_hour: "run (press_select # [press_left]) menu_start = Some after_hour"
  by (simp add: step_def poll_buttons_def wait_release_def set_mode_def mode_defs
      alarm_menu_select_def init_state_def menu_start_def after_hour_def
      press_left_def press_select_def no_press_def Let_def)

lemma scenario_min: "run (press_select # replicate 30 press_right) after_hour = Some after_min"
proof -
  have r: "is_right press_right"
    by (simp add: is_right_def press_right_def no_press_def)
  have a: "step press_select after_hour = Some (set_mode SET_ALARM_MIN after_hour)"
    by (rule select_alarm_hour) (simp add: after_hour_def)
  have b: "run (replicate 30 press_right) (set_mode SET_ALARM_MIN after_hour) = Some after_min"
    using alarm_min_rights [OF r, of "set_mode SET_ALARM_MIN after_hour" 30]
    by (simp add: set_mode_def after_hour_def after_min_def init_state_def min_ok_def)
  show ?thesis using a b by simp
qed

lemma scenario_sec: "run (press_select # []) after_min = Some after_sec"
  by (simp add: step_def poll_buttons_def wait_release_def set_mode_def mode_defs
      init_state_def after_min_def after_sec_def
      press_right_def press_select_def no_press_def Let_def)

theorem alarm_wizard_scenario_witness:
  "current_mode menu_start = ALARM_MENU \<and> menu_index menu_start = 1
   \<and> is_edit press_left \<and> is_edit press_right
   \<and> run (press_select # [press_left]) menu_start = Some after_hour
   \<and> hour (alarm_settime after_hour) = 7
   \<and> run (press_select # replicate 30 press_right) after_hour = Some after_min
   \<and> min' (alarm_settime after_min) = 30
   \<and> run (press_select # []) after_min = Some after_sec
   \<and> sec (alarm_settime after_sec) = 0
   \<and> (\<exists>s4. run (press_select # [press_left] @ press_select # replicate 30 press_right
                 @ press_select # [] @ [press_select]) menu_start = Some s4
          \<and> alarmtime s4 = (alarmtime menu_start)\<lparr>hour := 7, min' := 30, sec := 0\<rparr>
          \<and> alarm_enabled s4 \<and> rtc_alarm s4 = Some (alarmtime s4)
          \<and> current_mode s4 = SET_ALARM_FINAL)"
proof -
  have 0: "current_mode menu_start = ALARM_MENU" "menu_index menu_start = 1"
    by (simp_all add: menu_start_def)
  have e: "\<forall>i \<in> set [press_left] \<union> set (replicate 30 press_right) \<union> set []. is_edit i"
    by (simp add: is_edit_def press_left_def press_right_def no_press_def)
  have 1: "hour (alarm_settime after_hour) = 7" by (simp add: after_hour_def)
  have 2: "min' (alarm_settime after_min) = 30" by (simp add: after_min_def)
  have 3: "sec (alarm_settime after_sec) = 0" by (simp add: after_sec_def init_state_def)
  have e': "is_edit press_left" "is_edit press_right"
    by (simp_all add: is_edit_def press_left_def press_right_def no_press_def)
  show ?thesis
    using alarm_wizard_scenario [OF 0 e scenario_hour 1 scenario_min 2 scenario_sec 3] 0 e' scenario_hour 1 scenario_min 2 scenario_sec 3
    by blast
qed

section \<open>Ranges of the draft date\<close>

lemma range_sint_unat:
  fixes w :: "'a::len word"
  assumes "hi < 2 ^ (LENGTH('a) - Suc 0)"
  shows "(int lo \<le> sint w \<and> sint w \<le> int hi) \<longleftrightarrow> (lo \<le> unat w \<and> unat w \<le> hi)"
proof
  assume "int lo \<le> sint w \<and> sint w \<le> int hi"
  then show "lo \<le> unat w \<and> unat w \<le> hi"
    using sint_range_unat [of lo w hi] by simp
next
  assume r: "lo \<le> unat w \<and> unat w \<le> hi"
  then have "int (unat w) < 2 ^ (LENGTH('a) - Suc 0)"
    using assms by (metis le_less_trans of_nat_less_iff of_nat_numeral of_nat_power)
  then have "uint w < 2 ^ (LENGTH('a) - Suc 0)" by (simp only: uint_nat)
  then have "sint w = uint w" by (rule sint_small_uint)
  then show "int lo \<le> sint w \<and> sint w \<le> int hi"
    using r uint_nat [of w] by linarith
qed

lemma inc_in_range:
  fixes w :: "'a::len word"
  assumes "hi < 2 ^ LENGTH('a)" "lo \<le> unat w" "unat w \<le> hi"
  shows "lo \<le> unat (if w = of_nat hi then of_nat lo else w + 1)
       \<and> unat (if w = of_nat hi then of_nat lo else w + 1) \<le> hi"
proof (cases "w = of_nat hi")
  case True
  have "lo < 2 ^ LENGTH('a)" using assms by simp
  then have "unat (of_nat lo :: 'a word) = lo" by (metis unat_of_nat mod_less)
  then show ?thesis using True assms by simp
next
  case False
  moreover have "w = of_nat (unat w)" by simp
  ultimately have "unat w \<noteq> hi" by metis
  then have lt: "unat w + 1 \<le> hi" using assms by simp
  then have "unat w + 1 < 2 ^ LENGTH('a)" using assms by simp
  then have "unat (w + 1) = unat w + 1" by (simp add: unat_word_ariths)
  then show ?thesis using False lt assms by simp
qed

lemma dec_in_range:
  fixes w :: "'a::len word"
  assumes "hi < 2 ^ LENGTH('a)" "lo \<le> unat w" "unat w \<le> hi"
  shows "lo \<le> unat (if w = of_nat lo then of_nat hi else w - 1)
       \<and> unat (if w = of_nat lo then of_nat hi else w - 1) \<le> hi"
proof (cases "w = of_nat lo")
  case True
  have "unat (of_nat hi :: 'a word) = hi" using assms by (metis unat_of_nat mod_less)
  then show ?thesis using True assms by simp
next
  case False
  moreover have "w = of_nat (unat w)" by simp
  ultimately have ne: "unat w \<noteq> lo" by metis
  then have "unat w \<noteq> 0" using assms by auto
  then have "w \<noteq> 0" by auto
  then have "unat (w - 1) = unat w - 1" by (rule unat_minus_one)
  moreover have "lo \<le> unat w - 1 \<and> unat w - 1 \<le> hi" using ne assms by arith
  ultimately show ?thesis using False by simp
qed


lemma sint_dec8:
  fixes w :: "8 word"
  assumes "int lo \<le> sint w" "sint w \<le> int hi" "hi < 128" "w \<noteq> of_nat lo"
  shows "int lo \<le> sint (w - 1) \<and> sint (w - 1) \<le> int hi"
proof -
  have h: "hi < 2 ^ (LENGTH(8) - Suc 0)" "hi < 2 ^ LENGTH(8)" using assms(3) by simp_all
  have "lo \<le> unat w \<and> unat w \<le> hi"
    using assms(1,2) range_sint_unat [OF h(1), of lo w] by simp
  then have "lo \<le> unat (w - 1) \<and> unat (w - 1) \<le> hi"
    using dec_in_range [OF h(2), of lo w] assms(4) by simp
  then show ?thesis using range_sint_unat [OF h(1), of lo "w - 1"] by simp
qed

lemma sint_inc8:
  fixes w :: "8 word"
  assumes "int lo \<le> sint w" "sint w \<le> int hi" "hi < 128" "w \<noteq> of_nat hi"
  shows "int lo \<le> sint (w + 1) \<and> sint (w + 1) \<le> int hi"
proof -
  have h: "hi < 2 ^ (LENGTH(8) - Suc 0)" "hi < 2 ^ LENGTH(8)" using assms(3) by simp_all
  have "lo \<le> unat w \<and> unat w \<le> hi"
    using assms(1,2) range_sint_unat [OF h(1), of lo w] by simp
  then have "lo \<le> unat (w + 1) \<and> unat (w + 1) \<le> hi"
    using inc_in_range [OF h(2), of lo w] assms(4) by simp
  then show ?thesis using range_sint_unat [OF h(1), of lo "w + 1"] by simp
qed

lemmas month_dec = sint_dec8 [of 1 _ 12, simplified]
lemmas month_inc = sint_inc8 [of 1 _ 12, simplified]
lemmas dotw_dec = sint_dec8 [of 0 _ 6, simplified]
lemmas dotw_inc = sint_inc8 [of 0 _ 6, simplified]
lemmas hour_dec = sint_dec8 [of 0 _ 23, simplified]
lemmas hour_inc = sint_inc8 [of 0 _ 23, simplified]
lemmas sixty_dec = sint_dec8 [of 0 _ 59, simplified]
lemmas sixty_inc = sint_inc8 [of 0 _ 59, simplified]

lemmas ok_defs = month_ok_def dotw_ok_def hour_ok_def min_ok_def sec_ok_def

lemma step_fields_in_range:
  assumes ok: "fields_in_range (set_date s)"
    and rtc: "\<forall>d. rtc_get_datetime i = Some d \<longrightarrow> fields_in_range d"
    and st: "step i s = Some s'"
  shows "fields_in_range (set_date s')"
proof -
  consider (menu) "current_mode s = MENU"
    | (year) "current_mode s = SET_CLOCK_YEAR"
    | (dayf) "current_mode s = SET_CLOCK_DAY"
    | (month) "current_mode s = SET_CLOCK_MONTH"
    | (dotw) "current_mode s = SET_CLOCK_WEEKDAY"
    | (hour) "current_mode s = SET_CLOCK_HOUR"
    | (mins) "current_mode s = SET_CLOCK_MIN"
    | (secs) "current_mode s = SET_CLOCK_SEC"
    | (other) "current_mode s \<noteq> MENU" "current_mode s \<noteq> SET_CLOCK_MONTH"
        "current_mode s \<noteq> SET_CLOCK_YEAR" "current_mode s \<noteq> SET_CLOCK_DAY"
        "current_mode s \<noteq> SET_CLOCK_WEEKDAY" "current_mode s \<noteq> SET_CLOCK_HOUR"
        "current_mode s \<noteq> SET_CLOCK_MIN" "current_mode s \<noteq> SET_CLOCK_SEC"
    by blast
  then show ?thesis
  proof cases
    case menu
    then show ?thesis using ok rtc st
      by (auto simp: step_def menu_select_def set_mode_def wait_release_def mode_defs Let_def
          split: if_splits option.splits)
  next
    case year
    then show ?thesis using ok st
      by (auto simp: step_def mode_defs fields_in_range_def ok_defs set_mode_def
          dest!: poll_buttons_cases)
  next
    case dayf
    then show ?thesis using ok st
      by (auto simp: step_def mode_defs fields_in_range_def ok_defs set_mode_def
          day_left_def day_right_def Let_def dest!: poll_buttons_cases)
  next
    case month
    then show ?thesis using ok st
      by (auto simp: step_def mode_defs fields_in_range_def ok_defs month_select_def set_mode_def
          Let_def month_dec month_inc dest!: poll_buttons_cases)
  next
    case dotw
    then show ?thesis using ok st
      by (auto simp: step_def mode_defs fields_in_range_def ok_defs set_mode_def
          dotw_dec dotw_inc dest!: poll_buttons_cases)
  next
    case hour
    then show ?thesis using ok st
      by (auto simp: step_def mode_defs fields_in_range_def ok_defs set_mode_def
          hour_dec hour_inc dest!: poll_buttons_cases)
  next
    case mins
    then show ?thesis using ok st
      by (auto simp: step_def mode_defs fields_in_range_def ok_defs set_mode_def
          sixty_dec sixty_inc dest!: poll_buttons_cases)
  next
    case secs
    then show ?thesis using ok st
      by (auto simp: step_def mode_defs fields_in_range_def ok_defs set_mode_def
          clock_commit_def sixty_dec sixty_inc dest!: poll_buttons_cases)
  next
    case other
    then have "set_date s' = set_date s" using st
      by (auto simp: step_def set_mode_def clock_mode_def
          sleep_mode_def count_idle_def
          alarm_menu_select_def alarm_commit_def rtc_set_alarm_def rtc_disable_alarm_def Let_def
          dest!: poll_buttons_cases wait_release_Some split: if_splits)
    then show ?thesis using ok by simp
  qed
qed


lemma run_fields_in_range:
  assumes "fields_in_range (set_date s)"
    and "\<forall>i \<in> set is. \<forall>d. rtc_get_datetime i = Some d \<longrightarrow> fields_in_range d"
    and "run is s = Some s'"
  shows "fields_in_range (set_date s')"
  using assms
proof (induction "is" arbitrary: s)
  case Nil
  then show ?case by simp
next
  case (Cons i "is")
  from Cons.prems(3) obtain s1 where s1: "step i s = Some s1" "run is s1 = Some s'"
    by (auto split: option.splits)
  have "fields_in_range (set_date s1)"
    using step_fields_in_range [OF Cons.prems(1) _ s1(1)] Cons.prems(2) by simp
  then show ?case using Cons.IH [OF _ _ s1(2)] Cons.prems(2) by simp
qed

lemma draft_index_bounds:
  assumes "fields_in_range (set_date s)"
  shows "0 \<le> sint (month (set_date s)) - 1 \<and> sint (month (set_date s)) - 1 < int (length months)
       \<and> 0 \<le> sint (dotw (set_date s)) \<and> sint (dotw (set_date s)) < int (length weekdays)"
  using assms by (simp add: fields_in_range_def ok_defs months_def weekdays_def)

lemma show_set_clock_in_bounds:
  assumes "fields_in_range (set_date s)"
  shows "\<exists>f. show_set_clock s = Inr f"
  using draft_index_bounds [OF assms]
  by (simp add: show_set_clock_def array_at_def bind_fault_def Let_def)

text \<open>
  C10. The control loop keeps month in 1..12, weekday in 0..6, hour in 0..23, minute
  and second in 0..59 in the draft date, over any run that starts from a draft in
  range and in which every date read from the peripheral is in range. Hence the
  display loop's reads \<open>months[month - 1]\<close> and \<open>weekdays[dotw]\<close> on the draft are
  inside the tables, and showing a clock wizard field never reads out of bounds.
\<close>

theorem draft_fields_stay_in_range:
  assumes "fields_in_range (set_date s)"
    and "\<forall>i \<in> set is. \<forall>d. rtc_get_datetime i = Some d \<longrightarrow> fields_in_range d"
    and "run is s = Some s'"
  shows "fields_in_range (set_date s')
     \<and> 0 \<le> sint (month (set_date s')) - 1
     \<and> sint (month (set_date s')) - 1 < int (length months)
     \<and> 0 \<le> sint (dotw (set_date s')) \<and> sint (dotw (set_date s')) < int (length weekdays)
     \<and> (\<exists>f. show_set_clock s' = Inr f)
     \<and> (\<not> alarm_fired s' \<and> SET_CLOCK_YEAR \<le> current_mode s' \<and> current_mode s' \<le> SET_CLOCK_SEC
          \<longrightarrow> (\<exists>f. display rtc s' = Inr (f, s')))"
proof -
  have r: "fields_in_range (set_date s')"
    using run_fields_in_range [OF assms] .
  obtain f where f: "show_set_clock s' = Inr f"
    using show_set_clock_in_bounds [OF r] by blast
  have "display rtc s' = Inr (f, s')"
    if "\<not> alarm_fired s'" "SET_CLOCK_YEAR \<le> current_mode s'" "current_mode s' \<le> SET_CLOCK_SEC"
  proof -
    have "current_mode s' \<noteq> MENU" "current_mode s' \<noteq> CLOCK" "current_mode s' \<noteq> ALARM_MENU"
      "current_mode s' \<noteq> DISABLE_ALARM" "current_mode s' \<noteq> SLEEP_MODE"
      using that(2,3) by (auto simp: mode_defs word_le_nat_alt)
    then show ?thesis
      using that by (simp add: display_def f bind_fault_def)
  qed
  then show ?thesis using r f draft_index_bounds [OF r] by blast
qed

theorem draft_fields_stay_in_range_witness:
  "fields_in_range (set_date leap_day)
   \<and> rtc_get_datetime press_select = None \<and> rtc_get_datetime press_left = None
   \<and> run [press_select, press_left] leap_day = Some weekday_draft
   \<and> fields_in_range (set_date weekday_draft)
   \<and> show_set_clock weekday_draft = Inr [(8, 8, ''WEEKDAY''), (8, 28, ''Wednesday'')]
   \<and> display None weekday_draft
        = Inr ([(8, 8, ''WEEKDAY''), (8, 28, ''Wednesday'')], weekday_draft)"
proof -
  have a: "fields_in_range (set_date leap_day)"
    by (simp add: fields_in_range_def ok_defs leap_day_def)
  have b: "\<forall>i \<in> set [press_select, press_left].
             \<forall>d. rtc_get_datetime i = Some d \<longrightarrow> fields_in_range d"
    by (simp add: press_select_def press_left_def no_press_def)
  have c: "run [press_select, press_left] leap_day = Some weekday_draft"
    by (simp add: step_def poll_buttons_def wait_release_def set_mode_def mode_defs
        leap_day_def weekday_draft_def press_select_def press_left_def no_press_def init_state_def)
  have d: "show_set_clock weekday_draft = Inr [(8, 8, ''WEEKDAY''), (8, 28, ''Wednesday'')]"
    by (simp add: show_set_clock_def weekday_draft_def leap_day_def mode_defs array_at_def
        bind_fault_def weekdays_def Let_def)
  have e: "display None weekday_draft
        = Inr ([(8, 8, ''WEEKDAY''), (8, 28, ''Wednesday'')], weekday_draft)"
    by (simp add: display_def d bind_fault_def)
       (simp add: weekday_draft_def leap_day_def init_state_def mode_defs word_le_nat_alt)
  show ?thesis
    using draft_fields_stay_in_range [OF a b c, of None] a c d e
    by (simp add: press_select_def press_left_def no_press_def)
qed

section \<open>The day of the draft stays within its month\<close>















section \<open>Duration of the firing flag\<close>

lemma unat_add_no_wrap:
  fixes t :: "64 word"
  assumes "unat t + n < 2 ^ 64"
  shows "unat (t + of_nat n) = unat t + n"
proof -
  have "n < 2 ^ LENGTH(64)" using assms by simp
  then have "unat (of_nat n :: 64 word) = n" by (metis unat_of_nat mod_less)
  then show ?thesis using assms by (simp add: unat_word_ariths)
qed

lemma buzz_while_result:
  fixes "end" t :: "64 word"
  assumes per: "\<And>t. buzz lag BUZZER_FREQ t = t + of_nat P" and P: "0 < P"
    and nw: "unat end + P \<le> 2 ^ 64"
  shows "\<exists>k. buzz_while lag c end t = Some (t + of_nat (k * P))
            \<and> (\<forall>j<k. c (t + of_nat (j * P)) \<and> unat t + j * P < unat end)
            \<and> \<not> (c (t + of_nat (k * P)) \<and> t + of_nat (k * P) < end)
            \<and> unat (t + of_nat (k * P)) = unat t + k * P"
proof (induction "unat end - unat t" arbitrary: t rule: less_induct)
  case less
  show ?case
  proof (cases "c t \<and> t < end")
    case False
    have "buzz_while lag c end t = Some t"
      by (subst buzz_while.simps) (simp only: False if_False)
    then show ?thesis using False by (intro exI [of _ 0]) simp
  next
    case True
    then have lt: "unat t < unat end" by (simp only: word_less_nat_alt)
    have "unat t + P < 2 ^ 64" using lt nw by linarith
    then have u: "unat (t + of_nat P) = unat t + P"
      by (rule unat_add_no_wrap)
    then have "unat end - unat (t + of_nat P) < unat end - unat t" using lt P by linarith
    from less [OF this] obtain k where k:
      "buzz_while lag c end (t + of_nat P) = Some (t + of_nat P + of_nat (k * P))"
      "\<forall>j<k. c (t + of_nat P + of_nat (j * P)) \<and> unat (t + of_nat P) + j * P < unat end"
      "\<not> (c (t + of_nat P + of_nat (k * P)) \<and> t + of_nat P + of_nat (k * P) < end)"
      "unat (t + of_nat P + of_nat (k * P)) = unat (t + of_nat P) + k * P"
      by (elim exE conjE)
    have sh: "t + of_nat P + of_nat (j * P) = t + of_nat (Suc j * P)" for j
      by simp
    have a: "buzz_while lag c end t = Some (t + of_nat (Suc k * P))"
      by (subst buzz_while.simps) (simp only: True if_True per k(1) sh simp_thms)
    have b: "\<forall>j<Suc k. c (t + of_nat (j * P)) \<and> unat t + j * P < unat end"
    proof (intro allI impI)
      fix j assume that: "j < Suc k"
      show "c (t + of_nat (j * P)) \<and> unat t + j * P < unat end"
      proof (cases j)
        case 0
        then show ?thesis using True lt by simp
      next
        case (Suc j')
        then have "j' < k" using that by simp
        then have "c (t + of_nat P + of_nat (j' * P)) \<and> unat (t + of_nat P) + j' * P < unat end"
          using k(2) by (elim allE impE) assumption
        then have "c (t + of_nat (Suc j' * P)) \<and> unat t + P + j' * P < unat end"
          by (simp only: sh u)
        then show ?thesis by (simp add: Suc)
      qed
    qed
    have c: "\<not> (c (t + of_nat (Suc k * P)) \<and> t + of_nat (Suc k * P) < end)"
      using k(3) unfolding sh .
    have "unat (t + of_nat (Suc k * P)) = unat t + P + k * P"
      using k(4) by (simp only: sh u)
    then have d: "unat (t + of_nat (Suc k * P)) = unat t + Suc k * P"
      by simp
    show ?thesis
      by (rule exI [of _ "Suc k"]) (intro conjI a b c d)
  qed
qed

lemma callback_timeout:
  assumes per: "\<And>t. buzz lag BUZZER_FREQ t = t + of_nat P" and P: "0 < P"
    and nw: "60000000 + P \<le> 2 ^ 64"
  shows "\<exists>k. alarm_callback lag never_pressed 0 s
               = Some (of_nat (k * P), of_nat (k * P) + 20000 + lag (of_nat (k * P)),
                       s\<lparr>alarm_fired := False, alarm_count := 0\<rparr>)
            \<and> 60000000 \<le> k * P \<and> (k - 1) * P < 60000000"
proof -
  have nwe: "unat (60000000 :: 64 word) + P \<le> 2 ^ 64" using nw by simp
  obtain k where k:
    "buzz_while lag (\<lambda>t. \<not> never_pressed t) 60000000 0 = Some (0 + of_nat (k * P))"
    "\<forall>j<k. \<not> never_pressed (0 + of_nat (j * P)) \<and> unat (0 :: 64 word) + j * P < unat (60000000 :: 64 word)"
    "\<not> (\<not> never_pressed (0 + of_nat (k * P)) \<and> (0 :: 64 word) + of_nat (k * P) < 60000000)"
    "unat ((0 :: 64 word) + of_nat (k * P)) = unat (0 :: 64 word) + k * P"
    using buzz_while_result [OF per P nwe, of "\<lambda>t. \<not> never_pressed t" 0] by (elim exE conjE)
  define T :: "64 word" where "T = of_nat (k * P)"
  have k1: "buzz_while lag (\<lambda>t. \<not> never_pressed t) 60000000 0 = Some T"
    using k(1) by (simp add: T_def)
  have uT: "unat T = k * P" using k(4) by (simp add: T_def)
  have "\<not> T < 60000000" using k(3) by (simp add: T_def never_pressed_def)
  then have ge: "60000000 \<le> k * P" by (simp add: word_less_nat_alt uT)
  have "k \<noteq> 0"
  proof
    assume "k = 0"
    then show False using ge by simp
  qed
  then have "k - 1 < k" by simp
  then have lt: "(k - 1) * P < 60000000" using k(2) by auto
  have k2: "buzz_while lag (\<lambda>t. never_pressed t) 60000000 T = Some T"
    by (subst buzz_while.simps) (simp add: never_pressed_def)
  have k3: "spin_while_pressed never_pressed T = Some T"
    by (subst spin_while_pressed.simps) (simp add: never_pressed_def)
  have "alarm_callback lag never_pressed 0 s
          = Some (T, T + 20000 + lag T, s\<lparr>alarm_fired := False, alarm_count := 0\<rparr>)"
    by (simp add: alarm_callback_def buzz_until_pressed_def buzz_while_pressed_def
        MAX_ALARM_TIME_SEC_def WAIT_DURATION_MS_def k1 k2 k3)
  then show ?thesis using ge lt unfolding T_def by blast
qed

text \<open>
  C4. The firing flag is meant never to stay true for more than 60 seconds, as the
  source says itself (\<open>Alarm keeps firing at most 60 seconds\<close>,
  \<open>MAX_ALARM_TIME_SEC\<close>). The callback does not keep to it: the deadline is read only
  between buzzer periods of \<open>2 * (500000 / 466) = 2144\<close> microseconds. With the select
  button never pressed and the callback entered at time 0, it returns with the flag
  cleared 60001984 microseconds after setting it when no wait overruns, and 60002145
  microseconds after when every period overruns by 7 microseconds.
\<close>

theorem firing_exceeds_sixty_seconds:
  "alarm_callback no_lag never_pressed 0 init_state = Some (60001984, 60021984, init_state)
   \<and> alarm_callback lag_7us never_pressed 0 init_state = Some (60002145, 60022152, init_state)
   \<and> MAX_ALARM_TIME_SEC * 1000000 < unat (60001984 :: 64 word)"
proof -
  have p0: "buzz no_lag BUZZER_FREQ t = t + of_nat 2144" for t
    by (simp add: buzz_def BUZZER_FREQ_def no_lag_def)
  have p7: "buzz lag_7us BUZZER_FREQ t = t + of_nat 2151" for t
    by (simp add: buzz_def BUZZER_FREQ_def lag_7us_def)
  have i: "init_state\<lparr>alarm_fired := False, alarm_count := 0\<rparr> = init_state"
    by (simp add: init_state_def)
  obtain k where k: "alarm_callback no_lag never_pressed 0 init_state
               = Some (of_nat (k * 2144), of_nat (k * 2144) + 20000 + no_lag (of_nat (k * 2144)),
                       init_state\<lparr>alarm_fired := False, alarm_count := 0\<rparr>)"
      "60000000 \<le> k * 2144" "(k - 1) * 2144 < 60000000"
    using callback_timeout [OF p0, of init_state] by auto
  have "k = 27986" using k(2,3) by (simp add: diff_mult_distrib)
  then have a: "alarm_callback no_lag never_pressed 0 init_state
                  = Some (60001984, 60021984, init_state)"
    using k(1) by (simp add: i no_lag_def)
  obtain m where m: "alarm_callback lag_7us never_pressed 0 init_state
               = Some (of_nat (m * 2151), of_nat (m * 2151) + 20000 + lag_7us (of_nat (m * 2151)),
                       init_state\<lparr>alarm_fired := False, alarm_count := 0\<rparr>)"
      "60000000 \<le> m * 2151" "(m - 1) * 2151 < 60000000"
    using callback_timeout [OF p7, of init_state] by auto
  have "m = 27895" using m(2,3) by (simp add: diff_mult_distrib)
  then have b: "alarm_callback lag_7us never_pressed 0 init_state
                  = Some (60002145, 60022152, init_state)"
    using m(1) by (simp add: i lag_7us_def)
  show ?thesis using a b by (simp add: MAX_ALARM_TIME_SEC_def)
qed

end
